theory Spec2Isabelle
  imports Main "HOL-Library.Sublist"
begin

section \<open>JavaScript values\<close>

text \<open>
  The values that travel through the bridge are JSON documents and the two JavaScript
  values \<open>undefined\<close> and \<open>null\<close>. Numbers are the integer-valued ones (block numbers,
  ids, counters). An object is the list of its properties in insertion order.
\<close>

datatype jsval =
    JUndefined
  | JNull
  | JBool bool
  | JNum int
  | JStr string
  | JArr "jsval list"
  | JObj "(string \<times> jsval) list"

text \<open>JavaScript truthiness, as tested by \<open>if (x)\<close>, \<open>!x\<close> and \<open>x || y\<close>.\<close>

fun truthy :: "jsval \<Rightarrow> bool" where
  "truthy JUndefined = False"
| "truthy JNull = False"
| "truthy (JBool b) = b"
| "truthy (JNum n) = (n \<noteq> 0)"
| "truthy (JStr s) = (s \<noteq> [])"
| "truthy (JArr xs) = True"
| "truthy (JObj kvs) = True"

definition js_or :: "jsval \<Rightarrow> jsval \<Rightarrow> jsval" where
  "js_or a b = (if truthy a then a else b)"

section \<open>The bounded cache maps\<close>

text \<open>
  A JavaScript \<open>Map\<close> iterates in insertion order, \<open>set\<close> on a key that is present
  keeps its position, and \<open>keys().next().value\<close> is the first key. The model is the list
  of entries in insertion order.
\<close>

record item =
  item_value :: jsval
  timestamp :: int

type_synonym jsmap = "(string \<times> item) list"

definition map_size :: "jsmap \<Rightarrow> nat" where
  "map_size m = length m"

definition map_get :: "jsmap \<Rightarrow> string \<Rightarrow> item option" where
  "map_get m k = map_of m k"

fun map_set :: "string \<Rightarrow> item \<Rightarrow> jsmap \<Rightarrow> jsmap" where
  "map_set k v [] = [(k, v)]"
| "map_set k v ((k', v') # m) = (if k' = k then (k, v) # m else (k', v') # map_set k v m)"

definition map_delete :: "string \<Rightarrow> jsmap \<Rightarrow> jsmap" where
  "map_delete k m = filter (\<lambda>e. fst e \<noteq> k) m"

definition map_clear :: "jsmap \<Rightarrow> jsmap" where
  "map_clear m = []"

text \<open>\<open>setCacheItem(map, key, value)\<close>; \<open>maxCacheSize\<close> and \<open>Date.now()\<close> are passed in.\<close>

definition setCacheItem :: "nat \<Rightarrow> int \<Rightarrow> jsmap \<Rightarrow> string \<Rightarrow> jsval \<Rightarrow> jsmap" where
  "setCacheItem maxCacheSize now m key v =
     (let m1 = (if map_size m \<ge> maxCacheSize
                then (case m of [] \<Rightarrow> m | (oldestKey, _) # _ \<Rightarrow> map_delete oldestKey m)
                else m)
      in map_set key \<lparr>item_value = v, timestamp = now\<rparr> m1)"

record error_stats =
  totalErrors :: nat
  nodeErrors :: nat
  cacheHits :: nat
  cacheMisses :: nat
  autoRecoveries :: nat

text \<open>
  \<open>getCacheItem(map, key, ttl)\<close> returns the map, the counters and the value; \<open>JNull\<close>
  is the \<open>null\<close> of a miss.
\<close>

definition getCacheItem ::
  "int \<Rightarrow> error_stats \<Rightarrow> jsmap \<Rightarrow> string \<Rightarrow> int \<Rightarrow> jsmap \<times> error_stats \<times> jsval" where
  "getCacheItem now stats m key ttl =
     (case map_get m key of
        None \<Rightarrow> (m, stats\<lparr>cacheMisses := cacheMisses stats + 1\<rparr>, JNull)
      | Some it \<Rightarrow>
          if now - timestamp it > ttl
          then (map_delete key m, stats\<lparr>cacheMisses := cacheMisses stats + 1\<rparr>, JNull)
          else (m, stats\<lparr>cacheHits := cacheHits stats + 1\<rparr>, item_value it))"

record cache =
  globalProperties :: jsval
  activeWitnesses :: jsval
  blockHeaders :: jsmap
  blocks :: jsmap
  operations :: jsmap
  lastGlobalUpdate :: int
  lastWitnessUpdate :: int
  globalTTL :: int
  witnessTTL :: int
  blockTTL :: int
  maxCacheSize :: nat

definition initial_cache :: cache where
  "initial_cache = \<lparr>globalProperties = JNull, activeWitnesses = JNull,
     blockHeaders = [], blocks = [], operations = [],
     lastGlobalUpdate = 0, lastWitnessUpdate = 0,
     globalTTL = 3000, witnessTTL = 300000, blockTTL = 300000, maxCacheSize = 1000\<rparr>"

definition clearCache :: "cache \<Rightarrow> cache" where
  "clearCache c = c\<lparr>globalProperties := JNull, activeWitnesses := JNull,
     blockHeaders := map_clear (blockHeaders c), blocks := map_clear (blocks c),
     operations := map_clear (operations c),
     lastGlobalUpdate := 0, lastWitnessUpdate := 0\<rparr>"

text \<open>
  The operations a bounded map sees: a store, a lookup and the clear of a node switch,
  each on one of the three maps (the clear on all of them).
\<close>

datatype which_map = Headers | Blocks | Operations

datatype cache_op =
    Store which_map string jsval int
  | Lookup which_map string int
  | Clear

definition the_map :: "which_map \<Rightarrow> cache \<Rightarrow> jsmap" where
  "the_map w c = (case w of Headers \<Rightarrow> blockHeaders c | Blocks \<Rightarrow> blocks c
                  | Operations \<Rightarrow> operations c)"

definition put_map :: "which_map \<Rightarrow> jsmap \<Rightarrow> cache \<Rightarrow> cache" where
  "put_map w m c = (case w of Headers \<Rightarrow> c\<lparr>blockHeaders := m\<rparr> | Blocks \<Rightarrow> c\<lparr>blocks := m\<rparr>
                    | Operations \<Rightarrow> c\<lparr>operations := m\<rparr>)"

definition zero_stats :: error_stats where
  "zero_stats = \<lparr>totalErrors = 0, nodeErrors = 0, cacheHits = 0, cacheMisses = 0,
     autoRecoveries = 0\<rparr>"

fun cache_step :: "cache \<Rightarrow> cache_op \<Rightarrow> cache" where
  "cache_step c (Store w key v now) =
     put_map w (setCacheItem (maxCacheSize c) now (the_map w c) key v) c"
| "cache_step c (Lookup w key now) =
     put_map w (fst (getCacheItem now zero_stats (the_map w c) key (blockTTL c))) c"
| "cache_step c Clear = clearCache c"

definition cache_bounded :: "cache \<Rightarrow> bool" where
  "cache_bounded c \<longleftrightarrow>
     map_size (blockHeaders c) \<le> maxCacheSize c \<and>
     map_size (blocks c) \<le> maxCacheSize c \<and>
     map_size (operations c) \<le> maxCacheSize c"

section \<open>Errors\<close>

text \<open>
  A thrown JavaScript error: the \<open>name\<close> of its class and its \<open>message\<close>.
\<close>

record js_error =
  err_name :: string
  err_message :: string

definition Error :: "string \<Rightarrow> js_error" where
  "Error msg = \<lparr>err_name = ''Error'', err_message = msg\<rparr>"

definition TypeError :: "string \<Rightarrow> js_error" where
  "TypeError msg = \<lparr>err_name = ''TypeError'', err_message = msg\<rparr>"

text \<open>A name between single quotes, as the engine prints it in its messages.\<close>

definition quoted :: "string \<Rightarrow> string" where
  "quoted x = CHR 0x27 # x @ [CHR 0x27]"

section \<open>Property access and string conversion\<close>

fun show_nat :: "nat \<Rightarrow> string" where
  "show_nat n = (if n < 10 then [''0123456789'' ! n]
                 else show_nat (n div 10) @ [''0123456789'' ! (n mod 10)])"

declare show_nat.simps [simp del]

definition show_int :: "int \<Rightarrow> string" where
  "show_int i = (if i < 0 then CHR ''-'' # show_nat (nat (- i)) else show_nat (nat i))"

text \<open>\<open>obj.key\<close> on a parsed object: the last occurrence of a duplicated key wins.\<close>

definition obj_get :: "(string \<times> jsval) list \<Rightarrow> string \<Rightarrow> jsval" where
  "obj_get kvs k = (case map_of (rev kvs) k of None \<Rightarrow> JUndefined | Some v \<Rightarrow> v)"

text \<open>
  \<open>v[i]\<close>: reading a property of \<open>null\<close> or \<open>undefined\<close> throws, an index past the
  end of an array or a string is \<open>undefined\<close>, and numbers and booleans have no indexed
  properties.
\<close>

fun js_index :: "jsval \<Rightarrow> nat \<Rightarrow> js_error + jsval" where
  "js_index JUndefined i =
     Inl (TypeError (''Cannot read properties of undefined (reading '' @ quoted (show_nat i) @ '')''))"
| "js_index JNull i =
     Inl (TypeError (''Cannot read properties of null (reading '' @ quoted (show_nat i) @ '')''))"
| "js_index (JArr xs) i = Inr (if i < length xs then xs ! i else JUndefined)"
| "js_index (JStr s) i = Inr (if i < length s then JStr [s ! i] else JUndefined)"
| "js_index (JObj kvs) i = Inr (obj_get kvs (show_nat i))"
| "js_index (JBool b) i = Inr JUndefined"
| "js_index (JNum n) i = Inr JUndefined"

text \<open>\<open>v.key\<close> for a named property; only \<open>length\<close> exists on arrays and strings.\<close>

fun js_field :: "jsval \<Rightarrow> string \<Rightarrow> js_error + jsval" where
  "js_field JUndefined k =
     Inl (TypeError (''Cannot read properties of undefined (reading '' @ quoted k @ '')''))"
| "js_field JNull k =
     Inl (TypeError (''Cannot read properties of null (reading '' @ quoted k @ '')''))"
| "js_field (JObj kvs) k = Inr (obj_get kvs k)"
| "js_field (JArr xs) k = Inr (if k = ''length'' then JNum (int (length xs)) else JUndefined)"
| "js_field (JStr s) k = Inr (if k = ''length'' then JNum (int (length s)) else JUndefined)"
| "js_field (JBool b) k = Inr JUndefined"
| "js_field (JNum n) k = Inr JUndefined"

text \<open>
  The string a template literal \<open>`${v}`\<close> produces. A number is printed in decimal,
  which is what JavaScript prints for an integer below \<open>10^21\<close> in magnitude.
\<close>

fun join_with :: "string \<Rightarrow> string list \<Rightarrow> string" where
  "join_with sep [] = []"
| "join_with sep [x] = x"
| "join_with sep (x # y # ys) = x @ sep @ join_with sep (y # ys)"

fun js_to_string :: "jsval \<Rightarrow> string" where
  "js_to_string JUndefined = ''undefined''"
| "js_to_string JNull = ''null''"
| "js_to_string (JBool b) = (if b then ''true'' else ''false'')"
| "js_to_string (JNum n) = show_int n"
| "js_to_string (JStr s) = s"
| "js_to_string (JArr xs) =
     join_with '','' (map (\<lambda>x. if x = JNull \<or> x = JUndefined then [] else js_to_string x) xs)"
| "js_to_string (JObj kvs) = ''[object Object]''"

text \<open>\<open>s.includes(t)\<close> on strings.\<close>

definition str_includes :: "string \<Rightarrow> string \<Rightarrow> bool" where
  "str_includes s t = sublist t s"

section \<open>The upstream pool\<close>

definition steemNodes :: "string list" where
  "steemNodes = [''https://api.steemit.com/'', ''https://api.moecki.online/'',
     ''https://api.steemitdev.com/'', ''https://steemd.steemworld.org/'',
     ''https://api.pennsif.net/'', ''https://api.botsteem.com/'',
     ''https://api.steememory.com/'', ''https://steemapi.boylikegirl.club/'',
     ''https://api.justyy.com/'', ''https://api.steem.fans/'']"

text \<open>The health record of one endpoint; \<open>lastError\<close> is \<open>null\<close> until the first failure.\<close>

record node_health =
  url :: string
  healthy :: bool
  lastError :: "int option"
  errorCount :: nat
  lastSuccess :: int
  avgResponseTime :: int
  totalRequests :: nat

definition initial_health :: "int \<Rightarrow> string \<Rightarrow> node_health" where
  "initial_health now node = \<lparr>url = node, healthy = True, lastError = None, errorCount = 0,
     lastSuccess = now, avgResponseTime = 0, totalRequests = 0\<rparr>"

text \<open>\<open>Date.now() - node.lastError\<close>: the \<open>null\<close> of a node that never failed counts as 0.\<close>

definition since_lastError :: "int \<Rightarrow> node_health \<Rightarrow> int" where
  "since_lastError now node = now - (case lastError node of None \<Rightarrow> 0 | Some t \<Rightarrow> t)"

text \<open>The filter of \<open>switchToHealthyNode\<close>.\<close>

definition eligible :: "int \<Rightarrow> node_health \<Rightarrow> bool" where
  "eligible now node \<longleftrightarrow> healthy node \<or> since_lastError now node > 60000"

text \<open>The comparator of \<open>switchToHealthyNode\<close>; \<open>b.healthy - a.healthy\<close> subtracts booleans as 0 and 1.\<close>

definition node_cmp :: "node_health \<times> nat \<Rightarrow> node_health \<times> nat \<Rightarrow> int" where
  "node_cmp a b =
     (if healthy (fst a) \<noteq> healthy (fst b)
      then of_bool (healthy (fst b)) - of_bool (healthy (fst a))
      else if errorCount (fst a) \<noteq> errorCount (fst b)
      then int (errorCount (fst a)) - int (errorCount (fst b))
      else avgResponseTime (fst a) - avgResponseTime (fst b))"

text \<open>
  \<open>Array.prototype.sort\<close> with a comparator is a stable sort: an element goes before the
  first one it does not compare greater than.
\<close>

fun insert_by :: "('a \<Rightarrow> 'a \<Rightarrow> int) \<Rightarrow> 'a \<Rightarrow> 'a list \<Rightarrow> 'a list" where
  "insert_by cmp x [] = [x]"
| "insert_by cmp x (y # ys) = (if cmp x y \<le> 0 then x # y # ys else y # insert_by cmp x ys)"

definition js_sort :: "('a \<Rightarrow> 'a \<Rightarrow> int) \<Rightarrow> 'a list \<Rightarrow> 'a list" where
  "js_sort cmp xs = foldr (insert_by cmp) xs []"

text \<open>The ranking in the words of the specification: healthy first, then the lower error
  count, then the lower average latency.\<close>

definition spec_ranks_before :: "node_health \<Rightarrow> node_health \<Rightarrow> bool" where
  "spec_ranks_before a b \<longleftrightarrow>
     (healthy a \<and> \<not> healthy b) \<or>
     (healthy a = healthy b \<and>
        (errorCount a < errorCount b \<or>
         (errorCount a = errorCount b \<and> avgResponseTime a \<le> avgResponseTime b)))"

section \<open>Sessions, frames and the server state\<close>

datatype ready_state = CONNECTING | OPEN | CLOSING | CLOSED

type_synonym sid = nat

text \<open>A client socket with the rate-limit fields the connection handler puts on it.\<close>

record session =
  sess_id :: sid
  readyState :: ready_state
  messageCount :: nat
  lastReset :: int
  maxMessagesPerMinute :: nat

text \<open>
  A frame is the object given to \<open>JSON.stringify\<close>: its properties in the order written,
  each a value or the ISO string of an instant. A property whose value is \<open>undefined\<close>
  is left out by \<open>JSON.stringify\<close>.
\<close>

datatype fval = Val jsval | IsoTime int

type_synonym frame = "(string \<times> fval) list"

definition stringify :: "frame \<Rightarrow> frame" where
  "stringify props = filter (\<lambda>p. snd p \<noteq> Val JUndefined) props"

text \<open>
  What the server does that can be seen from outside: a frame sent on a socket, a socket
  closed, an upstream call (endpoint index, method of \<open>callSteemAPI\<close>, arguments), a
  failover of the pool, a delay.
\<close>

datatype event =
    Sent sid frame
  | Closed sid nat string
  | ApiCall nat string jsval
  | Failover
  | Sleep int

record subscribers =
  sub_globalProperties :: "sid list"
  sub_blocks :: "sid list"
  sub_blockHeaders :: "sid list"
  sub_operations :: "sid list"
  sub_witnesses :: "sid list"

text \<open>
  The fields of \<open>SteemWebSocketServer\<close>. \<open>steemClient\<close> is always the client of
  \<open>steemNodes[currentNodeIndex]\<close>, so the index stands for it. \<open>clients\<close> is
  \<open>wss.clients\<close>, \<open>clock\<close> is \<open>Date.now()\<close>, \<open>calls\<close> counts the upstream calls made
  so far and \<open>trace\<close> records the events in order.

  An \<open>async\<close> method is the function from the server at its call to its result and the
  server at its return: the clock advances by what an upstream call or a delay takes and
  stands still otherwise, and no other handler runs in between. Where a property depends
  on the handlers that run while a method waits, their frames are an argument of the
  model (\<open>pollTick\<close>).
\<close>

record server =
  currentNodeIndex :: nat
  nodeHealth :: "node_health list"
  cache :: cache
  subscribers :: subscribers
  clients :: "session list"
  requestQueue :: "(sid \<times> jsval) list"
  maxQueueSize :: nat
  errorStats :: error_stats
  lastProcessedBlock :: jsval
  clock :: int
  calls :: nat
  trace :: "event list"

definition initial_server :: "int \<Rightarrow> server" where
  "initial_server now = \<lparr>currentNodeIndex = 0,
     nodeHealth = map (initial_health now) steemNodes,
     cache = initial_cache,
     subscribers = \<lparr>sub_globalProperties = [], sub_blocks = [], sub_blockHeaders = [],
       sub_operations = [], sub_witnesses = []\<rparr>,
     clients = [], requestQueue = [], maxQueueSize = 1000,
     errorStats = zero_stats, lastProcessedBlock = JNull,
     clock = now, calls = 0, trace = []\<rparr>"

text \<open>
  The upstream is outside the program: the reply to the \<open>k\<close>-th call, made to endpoint
  \<open>i\<close> for a method with its arguments, is how long it took in milliseconds and
  either the error thrown or the result.
\<close>

record reply =
  took :: nat
  outcome :: "js_error + jsval"

type_synonym upstream = "nat \<Rightarrow> nat \<Rightarrow> string \<Rightarrow> jsval \<Rightarrow> reply"

definition log_event :: "event \<Rightarrow> server \<Rightarrow> server" where
  "log_event e s = s\<lparr>trace := trace s @ [e]\<rparr>"

text \<open>\<open>ws.send(message)\<close> with the message \<open>JSON.stringify\<close> built.\<close>

definition ws_send :: "sid \<Rightarrow> frame \<Rightarrow> server \<Rightarrow> server" where
  "ws_send ws message s = log_event (Sent ws message) s"

definition sleep :: "int \<Rightarrow> server \<Rightarrow> server" where
  "sleep ms s = log_event (Sleep ms) (s\<lparr>clock := clock s + ms\<rparr>)"

section \<open>Failover\<close>

text \<open>The current endpoint marked as \<open>switchToHealthyNode\<close> does before it filters.\<close>

definition mark_unhealthy :: "int \<Rightarrow> node_health \<Rightarrow> node_health" where
  "mark_unhealthy now h = h\<lparr>healthy := False, lastError := Some now,
     errorCount := errorCount h + 1\<rparr>"

definition healthyNodes :: "int \<Rightarrow> node_health list \<Rightarrow> (node_health \<times> nat) list" where
  "healthyNodes now nh =
     js_sort node_cmp (filter (\<lambda>node. eligible now (fst node)) (zip nh [0..<length nh]))"

text \<open>
  \<open>switchToHealthyNode\<close>. \<open>this.nodeHealth[this.currentNodeIndex]\<close> is \<open>undefined\<close> for
  an index outside the list, and the assignment to its \<open>healthy\<close> then throws.
\<close>

definition switchToHealthyNode :: "server \<Rightarrow> js_error + server" where
  "switchToHealthyNode s =
     (if currentNodeIndex s \<ge> length (nodeHealth s)
      then Inl (TypeError (''Cannot set properties of undefined (setting '' @ quoted ''healthy'' @ '')''))
      else
        let now = clock s;
            nh = (nodeHealth s)[currentNodeIndex s :=
                   mark_unhealthy now (nodeHealth s ! currentNodeIndex s)];
            s1 = log_event Failover (s\<lparr>nodeHealth := nh\<rparr>)
        in case healthyNodes now nh of
             [] \<Rightarrow> Inr s1
           | bestNode # _ \<Rightarrow>
               Inr (s1\<lparr>currentNodeIndex := snd bestNode,
                       cache := clearCache (cache s1),
                       errorStats := (errorStats s1)\<lparr>autoRecoveries :=
                          autoRecoveries (errorStats s1) + 1\<rparr>\<rparr>))"

text \<open>\<open>switchNode\<close>, the failover of the dispatcher's error path and of the poll driver.\<close>

definition switchNode :: "server \<Rightarrow> server" where
  "switchNode s =
     s\<lparr>currentNodeIndex := (currentNodeIndex s + 1) mod length steemNodes,
       cache := (cache s)\<lparr>globalProperties := JNull, activeWitnesses := JNull,
                  lastGlobalUpdate := 0, lastWitnessUpdate := 0\<rparr>\<rparr>"

section \<open>The retrying caller\<close>

text \<open>
  The \<open>switch\<close> of \<open>callSteemAPI\<close>: the arguments that go upstream for a method, or the
  error thrown before any call is made.
\<close>

definition route :: "string \<Rightarrow> jsval \<Rightarrow> js_error + jsval" where
  "route method params =
     (if method = ''getDynamicGlobalProperties'' then Inr (JArr [])
      else if method = ''getBlockHeader'' then js_index params 0
      else if method = ''getBlock'' then js_index params 0
      else if method = ''getOpsInBlock'' then Inr params
      else if method = ''getActiveWitnesses'' then Inr (JArr [])
      else if method = ''getTransaction'' then js_index params 0
      else if method \<in> set [''getTicker'', ''getOrderBook'', ''getRecentTrades'',
             ''getAccounts'', ''getMarketHistory'', ''getAccountHistory'',
             ''getWitnessesByVote'', ''getVestingDelegations'']
      then Inr params
      else Inl (Error (''Unknown method: '' @ method)))"

text \<open>One pass through the \<open>try\<close> block up to the result of the upstream call.\<close>

definition attempt_call :: "upstream \<Rightarrow> string \<Rightarrow> jsval \<Rightarrow> server \<Rightarrow> (js_error + jsval) \<times> server" where
  "attempt_call up method params s =
     (case route method params of
        Inl e \<Rightarrow> (Inl e, s)
      | Inr args \<Rightarrow>
          let r = up (calls s) (currentNodeIndex s) method args
          in (outcome r,
              log_event (ApiCall (currentNodeIndex s) method args)
                (s\<lparr>calls := calls s + 1, clock := clock s + int (took r)\<rparr>)))"

text \<open>\<open>Math.round(x / n)\<close> for integers \<open>x\<close> and \<open>n > 0\<close>: halves round up.\<close>

definition round_div :: "int \<Rightarrow> int \<Rightarrow> int" where
  "round_div x n = (2 * x + n) div (2 * n)"

definition record_success :: "int \<Rightarrow> int \<Rightarrow> node_health \<Rightarrow> node_health" where
  "record_success now responseTime h =
     (let n = totalRequests h + 1
      in h\<lparr>lastSuccess := now, totalRequests := n,
           avgResponseTime := round_div (avgResponseTime h * (int n - 1) + responseTime) (int n),
           healthy := True\<rparr>)"

definition record_failure :: "int \<Rightarrow> node_health \<Rightarrow> node_health" where
  "record_failure now h = h\<lparr>errorCount := errorCount h + 1, lastError := Some now\<rparr>"

definition undefined_health :: js_error where
  "undefined_health = TypeError (''Cannot read properties of undefined (reading '' @ quoted ''errorCount'' @ '')'')"

text \<open>
  The loop of \<open>callSteemAPI\<close> from a given \<open>attempt\<close>. \<open>nodeHealth\<close> is the record of the
  endpoint current when the attempt starts; were the index outside the list, the update
  of the record would throw inside \<open>try\<close> and again inside \<open>catch\<close>. A loop that ends
  without returning gives \<open>undefined\<close>.
\<close>

function callSteemAPI_loop ::
  "upstream \<Rightarrow> string \<Rightarrow> jsval \<Rightarrow> nat \<Rightarrow> nat \<Rightarrow> server \<Rightarrow> (js_error + jsval) \<times> server" where
  "callSteemAPI_loop up method params maxRetries attempt s =
     (if attempt > maxRetries then (Inr JUndefined, s)
      else
        let startTime = clock s; idx = currentNodeIndex s
        in case attempt_call up method params s of
             (Inr result, s1) \<Rightarrow>
               if idx \<ge> length (nodeHealth s1) then (Inl undefined_health, s1)
               else (Inr result,
                     s1\<lparr>nodeHealth := (nodeHealth s1)[idx :=
                          record_success (clock s1) (clock s1 - startTime) (nodeHealth s1 ! idx)]\<rparr>)
           | (Inl error, s1) \<Rightarrow>
               if idx \<ge> length (nodeHealth s1) then (Inl undefined_health, s1)
               else
                 let s2 = s1\<lparr>nodeHealth := (nodeHealth s1)[idx :=
                            record_failure (clock s1) (nodeHealth s1 ! idx)]\<rparr>
                 in if attempt < maxRetries
                    then (case switchToHealthyNode s2 of
                            Inl e \<Rightarrow> (Inl e, s2)
                          | Inr s3 \<Rightarrow>
                              callSteemAPI_loop up method params maxRetries (attempt + 1)
                                (sleep (1000 * int attempt) s3))
                    else (Inl error,
                          s2\<lparr>errorStats := (errorStats s2)\<lparr>
                               totalErrors := totalErrors (errorStats s2) + 1,
                               nodeErrors := nodeErrors (errorStats s2) + 1\<rparr>\<rparr>))"
  by pat_completeness auto
termination
  by (relation "measure (\<lambda>(up, method, params, maxRetries, attempt, s). maxRetries + 1 - attempt)") auto

declare callSteemAPI_loop.simps [simp del]

definition callSteemAPI :: "upstream \<Rightarrow> string \<Rightarrow> jsval \<Rightarrow> server \<Rightarrow> (js_error + jsval) \<times> server" where
  "callSteemAPI up method params s = callSteemAPI_loop up method params 3 1 s"

text \<open>The health records after \<open>switchToHealthyNode\<close> has marked the current endpoint.\<close>

definition marked :: "server \<Rightarrow> node_health list" where
  "marked s = (nodeHealth s)[currentNodeIndex s :=
                 mark_unhealthy (clock s) (nodeHealth s ! currentNodeIndex s)]"

text \<open>
  A server some time after start: endpoint 0 current, all endpoints healthy, head state
  cached 100 seconds ago, the witness list 400 seconds ago, and one block in the block map.
\<close>

definition example_server :: server where
  "example_server = (initial_server 1000)\<lparr>clock := 500000,
     cache := initial_cache\<lparr>globalProperties := JObj [(''head_block_number'', JNum 100)],
       lastGlobalUpdate := 400000,
       activeWitnesses := JArr [JStr ''alice'', JStr ''bob''],
       lastWitnessUpdate := 100000,
       blocks := [(''block_100'', \<lparr>item_value = JObj [], timestamp = 400000\<rparr>)]\<rparr>\<rparr>"

text \<open>
  What one attempt of \<open>callSteemAPI\<close> gets, logs and consumes when it is the \<open>k\<close>-th
  upstream call and endpoint \<open>i\<close> is current.
\<close>

definition call_outcome :: "upstream \<Rightarrow> string \<Rightarrow> jsval \<Rightarrow> nat \<Rightarrow> nat \<Rightarrow> js_error + jsval" where
  "call_outcome up method params k i =
     (case route method params of Inl e \<Rightarrow> Inl e | Inr args \<Rightarrow> outcome (up k i method args))"

definition call_events :: "string \<Rightarrow> jsval \<Rightarrow> nat \<Rightarrow> event list" where
  "call_events method params i =
     (case route method params of Inl e \<Rightarrow> [] | Inr args \<Rightarrow> [ApiCall i method args])"

definition calls_made :: "string \<Rightarrow> jsval \<Rightarrow> nat" where
  "calls_made method params = (case route method params of Inl e \<Rightarrow> 0 | Inr args \<Rightarrow> 1)"

text \<open>An upstream on which every call fails with the same error after 5 ms.\<close>

definition failing_upstream :: "js_error \<Rightarrow> upstream" where
  "failing_upstream e k i method args = \<lparr>took = 5, outcome = Inl e\<rparr>"

section \<open>The cached read handlers\<close>

definition count_hit :: "server \<Rightarrow> server" where
  "count_hit s = s\<lparr>errorStats := (errorStats s)\<lparr>cacheHits := cacheHits (errorStats s) + 1\<rparr>\<rparr>"

definition count_miss :: "server \<Rightarrow> server" where
  "count_miss s = s\<lparr>errorStats := (errorStats s)\<lparr>cacheMisses := cacheMisses (errorStats s) + 1\<rparr>\<rparr>"

text \<open>Reading a property of a result that is \<open>null\<close> or \<open>undefined\<close> throws.\<close>

definition nullish :: "jsval \<Rightarrow> bool" where
  "nullish v \<longleftrightarrow> v = JNull \<or> v = JUndefined"

definition read_of_nullish :: "jsval \<Rightarrow> string \<Rightarrow> js_error" where
  "read_of_nullish v k =
     TypeError (''Cannot read properties of '' @ js_to_string v @ '' (reading '' @ quoted k @ '')'')"

text \<open>
  \<open>getDynamicGlobalProperties\<close>: a slot that is populated and younger than the TTL is a
  hit. Otherwise the upstream is asked; the result goes into the slot (the log line after
  that reads \<open>result.head_block_number\<close>), and in the \<open>catch\<close> block a slot that is
  populated at that moment is returned in place of the error.
\<close>

definition getDynamicGlobalProperties :: "upstream \<Rightarrow> server \<Rightarrow> (js_error + jsval) \<times> server" where
  "getDynamicGlobalProperties up s =
     (let now = clock s
      in if truthy (globalProperties (cache s)) \<and>
            now - lastGlobalUpdate (cache s) < globalTTL (cache s)
         then (Inr (globalProperties (cache s)), count_hit s)
         else
           let (r, s1) = callSteemAPI up ''getDynamicGlobalProperties'' (JArr []) s;
               (thrown, s2) =
                 (case r of
                    Inl error \<Rightarrow> (Some error, s1)
                  | Inr result \<Rightarrow>
                      let s2 = count_miss (s1\<lparr>cache := (cache s1)\<lparr>globalProperties := result,
                                   lastGlobalUpdate := now\<rparr>\<rparr>)
                      in if nullish result
                         then (Some (read_of_nullish result ''head_block_number''), s2)
                         else (None, s2))
           in case thrown of
                None \<Rightarrow> (r, s2)
              | Some error \<Rightarrow>
                  if truthy (globalProperties (cache s2))
                  then (Inr (globalProperties (cache s2)), count_hit s2)
                  else (Inl error, s2))"

text \<open>
  The three block reads share their shape: cache lookup, upstream call, store. \<open>touch\<close>
  is the property the log line reads from the result, if any.
\<close>

definition cached_read ::
  "upstream \<Rightarrow> which_map \<Rightarrow> string \<Rightarrow> string \<Rightarrow> jsval \<Rightarrow> string option \<Rightarrow> server
     \<Rightarrow> (js_error + jsval) \<times> server" where
  "cached_read up w cacheKey method args touch s =
     (case getCacheItem (clock s) (errorStats s) (the_map w (cache s)) cacheKey (blockTTL (cache s)) of
        (m, stats, cached) \<Rightarrow>
          let s0 = s\<lparr>cache := put_map w m (cache s), errorStats := stats\<rparr>
          in if truthy cached then (Inr cached, s0)
             else
               (case callSteemAPI up method args s0 of
                  (Inl error, s1) \<Rightarrow> (Inl error, s1)
                | (Inr result, s1) \<Rightarrow>
                    let s2 = s1\<lparr>cache := put_map w
                               (setCacheItem (maxCacheSize (cache s1)) (clock s1)
                                  (the_map w (cache s1)) cacheKey result) (cache s1)\<rparr>
                    in (case touch of
                          Some k \<Rightarrow> if nullish result then (Inl (read_of_nullish result k), s2)
                                    else (Inr result, s2)
                        | None \<Rightarrow> (Inr result, s2))))"

definition getBlockHeader :: "upstream \<Rightarrow> jsval \<Rightarrow> server \<Rightarrow> (js_error + jsval) \<times> server" where
  "getBlockHeader up blockNumber s =
     cached_read up Headers (''header_'' @ js_to_string blockNumber) ''getBlockHeader''
       (JArr [blockNumber]) None s"

definition getBlock :: "upstream \<Rightarrow> jsval \<Rightarrow> server \<Rightarrow> (js_error + jsval) \<times> server" where
  "getBlock up blockNumber s =
     cached_read up Blocks (''block_'' @ js_to_string blockNumber) ''getBlock''
       (JArr [blockNumber]) (Some ''transactions'') s"

definition getOpsInBlock :: "upstream \<Rightarrow> jsval \<Rightarrow> jsval \<Rightarrow> server \<Rightarrow> (js_error + jsval) \<times> server" where
  "getOpsInBlock up blockNumber onlyVirtual s =
     cached_read up Operations
       (''ops_'' @ js_to_string blockNumber @ ''_'' @ js_to_string onlyVirtual) ''getOpsInBlock''
       (JArr [blockNumber, onlyVirtual]) (Some ''length'') s"

definition getTransaction :: "upstream \<Rightarrow> jsval \<Rightarrow> server \<Rightarrow> (js_error + jsval) \<times> server" where
  "getTransaction up transactionId s = callSteemAPI up ''getTransaction'' (JArr [transactionId]) s"

section \<open>Subscribers and broadcast\<close>

text \<open>A socket that is no longer among the clients is closed.\<close>

definition is_open :: "server \<Rightarrow> sid \<Rightarrow> bool" where
  "is_open s ws = (case find (\<lambda>c. sess_id c = ws) (clients s) of
                     None \<Rightarrow> False | Some c \<Rightarrow> readyState c = OPEN)"

text \<open>\<open>Set.add\<close> and \<open>Set.delete\<close> on a set kept in insertion order.\<close>

definition set_add :: "sid \<Rightarrow> sid list \<Rightarrow> sid list" where
  "set_add ws xs = (if ws \<in> set xs then xs else xs @ [ws])"

definition set_delete :: "sid \<Rightarrow> sid list \<Rightarrow> sid list" where
  "set_delete ws xs = filter (\<lambda>x. x \<noteq> ws) xs"

definition subscription_update :: "string \<Rightarrow> jsval \<Rightarrow> int \<Rightarrow> frame" where
  "subscription_update feed payload now =
     stringify [(''type'', Val (JStr ''subscription_update'')),
                (''subscription'', Val (JStr feed)),
                (''data'', Val payload),
                (''timestamp'', IsoTime now)]"

text \<open>
  \<open>broadcastToSubscribers\<close>: the message goes to the subscribers that are open, the
  others are deleted from the set. (\<open>send\<close> on an open socket does not throw.) The
  result is the subscriber set and the server.
\<close>

definition broadcastToSubscribers :: "sid list \<Rightarrow> frame \<Rightarrow> server \<Rightarrow> sid list \<times> server" where
  "broadcastToSubscribers subscriberSet message s =
     (filter (is_open s) subscriberSet,
      foldl (\<lambda>st client. ws_send client message st) s (filter (is_open s) subscriberSet))"

text \<open>Putting back the subscriber set a broadcast has pruned.\<close>

definition set_sub_blockHeaders :: "sid list \<times> server \<Rightarrow> server" where
  "set_sub_blockHeaders r = (case r of (subs, s) \<Rightarrow>
     s\<lparr>subscribers := (subscribers s)\<lparr>sub_blockHeaders := subs\<rparr>\<rparr>)"

definition set_sub_blocks :: "sid list \<times> server \<Rightarrow> server" where
  "set_sub_blocks r = (case r of (subs, s) \<Rightarrow>
     s\<lparr>subscribers := (subscribers s)\<lparr>sub_blocks := subs\<rparr>\<rparr>)"

definition set_sub_operations :: "sid list \<times> server \<Rightarrow> server" where
  "set_sub_operations r = (case r of (subs, s) \<Rightarrow>
     s\<lparr>subscribers := (subscribers s)\<lparr>sub_operations := subs\<rparr>\<rparr>)"

definition set_sub_globalProperties :: "sid list \<times> server \<Rightarrow> server" where
  "set_sub_globalProperties r = (case r of (subs, s) \<Rightarrow>
     s\<lparr>subscribers := (subscribers s)\<lparr>sub_globalProperties := subs\<rparr>\<rparr>)"

definition set_sub_witnesses :: "sid list \<times> server \<Rightarrow> server" where
  "set_sub_witnesses r = (case r of (subs, s) \<Rightarrow>
     s\<lparr>subscribers := (subscribers s)\<lparr>sub_witnesses := subs\<rparr>\<rparr>)"

text \<open>The broadcast of \<open>getActiveWitnesses\<close> when the list has changed.\<close>

definition witnesses_changed :: "jsval \<Rightarrow> jsval \<Rightarrow> server \<Rightarrow> server" where
  "witnesses_changed previousWitnesses result s =
     (if sub_witnesses (subscribers s) \<noteq> [] \<and> previousWitnesses \<noteq> result
      then set_sub_witnesses
             (broadcastToSubscribers (sub_witnesses (subscribers s))
                (subscription_update ''witnesses'' result (clock s)) s)
      else s)"

text \<open>
  \<open>getActiveWitnesses\<close>; the comparison of the two \<open>JSON.stringify\<close> strings is the
  comparison of the values.
\<close>

definition getActiveWitnesses :: "upstream \<Rightarrow> server \<Rightarrow> (js_error + jsval) \<times> server" where
  "getActiveWitnesses up s =
     (let now = clock s
      in if truthy (activeWitnesses (cache s)) \<and>
            now - lastWitnessUpdate (cache s) < witnessTTL (cache s)
         then (Inr (activeWitnesses (cache s)), count_hit s)
         else
           let (r, s1) = callSteemAPI up ''getActiveWitnesses'' (JArr []) s;
               (thrown, s2) =
                 (case r of
                    Inl error \<Rightarrow> (Some error, s1)
                  | Inr result \<Rightarrow>
                      let previousWitnesses = activeWitnesses (cache s1);
                          s2 = count_miss (s1\<lparr>cache := (cache s1)\<lparr>activeWitnesses := result,
                                   lastWitnessUpdate := now\<rparr>\<rparr>);
                          s3 = witnesses_changed previousWitnesses result s2
                      in if nullish result
                         then (Some (read_of_nullish result ''length''), s3)
                         else (None, s3))
           in case thrown of
                None \<Rightarrow> (r, s2)
              | Some error \<Rightarrow>
                  if truthy (activeWitnesses (cache s2))
                  then (Inr (activeWitnesses (cache s2)), count_hit s2)
                  else (Inl error, s2))"

section \<open>The request dispatcher\<close>

datatype api =
    GetDynamicGlobalProperties | GetBlockHeader | GetBlock | GetOpsInBlock
  | GetActiveWitnesses | GetTransaction | GetTicker | GetOrderBook | GetRecentTrades
  | GetAccounts | GetMarketHistory | GetAccountHistory | GetWitnessesByVote
  | GetVestingDelegations
  | SubscribeGlobalProperties | UnsubscribeGlobalProperties
  | SubscribeBlocks | UnsubscribeBlocks
  | SubscribeBlockHeaders | UnsubscribeBlockHeaders
  | SubscribeOperations | UnsubscribeOperations
  | SubscribeWitnesses | UnsubscribeWitnesses

text \<open>The \<open>case\<close> labels of the \<open>switch\<close> in \<open>handleMessage\<close>, in the order written.\<close>

definition case_labels :: "(string \<times> api) list" where
  "case_labels =
     [(''condenser_api.get_dynamic_global_properties'', GetDynamicGlobalProperties),
      (''get_dynamic_global_properties'', GetDynamicGlobalProperties),
      (''condenser_api.get_block_header'', GetBlockHeader),
      (''get_block_header'', GetBlockHeader),
      (''condenser_api.get_block'', GetBlock),
      (''get_block'', GetBlock),
      (''condenser_api.get_ops_in_block'', GetOpsInBlock),
      (''get_ops_in_block'', GetOpsInBlock),
      (''condenser_api.get_active_witnesses'', GetActiveWitnesses),
      (''get_active_witnesses'', GetActiveWitnesses),
      (''condenser_api.get_transaction'', GetTransaction),
      (''get_transaction'', GetTransaction),
      (''market_history_api.get_ticker'', GetTicker),
      (''get_ticker'', GetTicker),
      (''market_history_api.get_order_book'', GetOrderBook),
      (''get_order_book'', GetOrderBook),
      (''market_history_api.get_recent_trades'', GetRecentTrades),
      (''get_recent_trades'', GetRecentTrades),
      (''condenser_api.get_accounts'', GetAccounts),
      (''get_accounts'', GetAccounts),
      (''market_history_api.get_market_history'', GetMarketHistory),
      (''get_market_history'', GetMarketHistory),
      (''condenser_api.get_account_history'', GetAccountHistory),
      (''get_account_history'', GetAccountHistory),
      (''condenser_api.get_witnesses_by_vote'', GetWitnessesByVote),
      (''get_witnesses_by_vote'', GetWitnessesByVote),
      (''condenser_api.get_vesting_delegations'', GetVestingDelegations),
      (''get_vesting_delegations'', GetVestingDelegations),
      (''subscribe_global_properties'', SubscribeGlobalProperties),
      (''unsubscribe_global_properties'', UnsubscribeGlobalProperties),
      (''subscribe_blocks'', SubscribeBlocks),
      (''unsubscribe_blocks'', UnsubscribeBlocks),
      (''subscribe_block_headers'', SubscribeBlockHeaders),
      (''unsubscribe_block_headers'', UnsubscribeBlockHeaders),
      (''subscribe_operations'', SubscribeOperations),
      (''unsubscribe_operations'', UnsubscribeOperations),
      (''subscribe_witnesses'', SubscribeWitnesses),
      (''unsubscribe_witnesses'', UnsubscribeWitnesses)]"

text \<open>\<open>switch (method)\<close> compares with \<open>===\<close>: only a string can match a label.\<close>

definition switch_case :: "jsval \<Rightarrow> api option" where
  "switch_case method = (case method of JStr m \<Rightarrow> map_of case_labels m | _ \<Rightarrow> None)"

text \<open>
  How the \<open>switch\<close> is left: by \<open>return\<close> after the handler has replied itself, by
  \<open>break\<close> with a result, or by a throw.
\<close>

datatype dispatched = Replied server | Result jsval server | Thrown js_error server

definition finish :: "(js_error + jsval) \<times> server \<Rightarrow> dispatched" where
  "finish r = (case r of (Inl e, s) \<Rightarrow> Thrown e s | (Inr v, s) \<Rightarrow> Result v s)"

text \<open>A handler that needs a truthy \<open>params[0]\<close>.\<close>

definition require_param0 ::
  "jsval \<Rightarrow> string \<Rightarrow> server \<Rightarrow> (jsval \<Rightarrow> dispatched) \<Rightarrow> dispatched" where
  "require_param0 params msg s handler =
     (case js_index params 0 of
        Inl e \<Rightarrow> Thrown e s
      | Inr p0 \<Rightarrow> if \<not> truthy p0 then Thrown (Error msg) s else handler p0)"

definition response :: "jsval \<Rightarrow> jsval \<Rightarrow> frame" where
  "response rid result =
     stringify [(''id'', Val rid), (''result'', Val result), (''type'', Val (JStr ''response''))]"

definition subscribed :: "string \<Rightarrow> jsval" where
  "subscribed feed = JObj [(''subscribed'', JBool True), (''type'', JStr feed)]"

definition unsubscribed :: "string \<Rightarrow> jsval" where
  "unsubscribed feed = JObj [(''unsubscribed'', JBool True), (''type'', JStr feed)]"

text \<open>\<open>Number(v)\<close> where it is an integer, for \<open>params.length < 3\<close>; \<open>None\<close> is \<open>NaN\<close>.\<close>

definition digits_value :: "string \<Rightarrow> int option" where
  "digits_value s =
     (if s \<noteq> [] \<and> list_all (\<lambda>c. c \<in> set ''0123456789'') s
      then Some (foldl (\<lambda>n c. 10 * n + (int (of_char c) - 48)) 0 s)
      else None)"

fun js_to_number :: "jsval \<Rightarrow> int option" where
  "js_to_number (JNum n) = Some n"
| "js_to_number JNull = Some 0"
| "js_to_number (JBool b) = Some (if b then 1 else 0)"
| "js_to_number JUndefined = None"
| "js_to_number (JStr s) = (if s = [] then Some 0 else digits_value s)"
| "js_to_number (JArr xs) =
     (case xs of [] \<Rightarrow> Some 0
      | [x] \<Rightarrow> (if js_to_string (JArr [x]) = [] then Some 0 else digits_value (js_to_string (JArr [x])))
      | _ \<Rightarrow> None)"
| "js_to_number (JObj kvs) = None"

definition js_less :: "jsval \<Rightarrow> int \<Rightarrow> bool" where
  "js_less v n = (case js_to_number v of None \<Rightarrow> False | Some k \<Rightarrow> k < n)"

definition is_array :: "jsval \<Rightarrow> bool" where
  "is_array v = (case v of JArr xs \<Rightarrow> True | _ \<Rightarrow> False)"

text \<open>The body of the \<open>switch\<close>.\<close>

definition dispatch :: "upstream \<Rightarrow> sid \<Rightarrow> jsval \<Rightarrow> jsval \<Rightarrow> jsval \<Rightarrow> server \<Rightarrow> dispatched" where
  "dispatch up ws rid method params s =
     (case switch_case method of
        None \<Rightarrow> Thrown (Error (''Unsupported method: '' @ js_to_string method)) s
      | Some GetDynamicGlobalProperties \<Rightarrow> finish (getDynamicGlobalProperties up s)
      | Some GetBlockHeader \<Rightarrow>
          require_param0 params ''Block number is required'' s
            (\<lambda>p0. finish (getBlockHeader up p0 s))
      | Some GetBlock \<Rightarrow>
          require_param0 params ''Block number is required'' s
            (\<lambda>p0. finish (getBlock up p0 s))
      | Some GetOpsInBlock \<Rightarrow>
          require_param0 params ''Block number is required'' s
            (\<lambda>p0. case js_index params 1 of
                     Inl e \<Rightarrow> Thrown e s
                   | Inr p1 \<Rightarrow> finish (getOpsInBlock up p0 (js_or p1 (JBool False)) s))
      | Some GetActiveWitnesses \<Rightarrow> finish (getActiveWitnesses up s)
      | Some GetTransaction \<Rightarrow>
          require_param0 params ''Transaction ID is required'' s
            (\<lambda>p0. finish (getTransaction up p0 s))
      | Some GetTicker \<Rightarrow> finish (callSteemAPI up ''getTicker'' params s)
      | Some GetOrderBook \<Rightarrow> finish (callSteemAPI up ''getOrderBook'' params s)
      | Some GetRecentTrades \<Rightarrow> finish (callSteemAPI up ''getRecentTrades'' params s)
      | Some GetAccounts \<Rightarrow>
          (case js_index params 0 of
             Inl e \<Rightarrow> Thrown e s
           | Inr p0 \<Rightarrow>
               if \<not> truthy p0 \<or> \<not> is_array p0
               then Thrown (Error ''Array of account names required'') s
               else finish (callSteemAPI up ''getAccounts'' params s))
      | Some GetMarketHistory \<Rightarrow>
          (case js_field params ''length'' of
             Inl e \<Rightarrow> Thrown e s
           | Inr len \<Rightarrow>
               if js_less len 3
               then Thrown (Error ''Bucket seconds, start, and end time required'') s
               else finish (callSteemAPI up ''getMarketHistory'' params s))
      | Some GetAccountHistory \<Rightarrow>
          require_param0 params ''Account name required'' s
            (\<lambda>p0. finish (callSteemAPI up ''getAccountHistory'' params s))
      | Some GetWitnessesByVote \<Rightarrow> finish (callSteemAPI up ''getWitnessesByVote'' params s)
      | Some GetVestingDelegations \<Rightarrow>
          require_param0 params ''Account name required'' s
            (\<lambda>p0. finish (callSteemAPI up ''getVestingDelegations'' params s))
      | Some SubscribeGlobalProperties \<Rightarrow>
          (let s1 = s\<lparr>subscribers := (subscribers s)\<lparr>sub_globalProperties :=
                        set_add ws (sub_globalProperties (subscribers s))\<rparr>\<rparr>;
               s2 = ws_send ws (response rid (subscribed ''global_properties'')) s1
           in Replied (if truthy (globalProperties (cache s2))
                       then ws_send ws (subscription_update ''global_properties''
                                          (globalProperties (cache s2)) (clock s2)) s2
                       else s2))
      | Some UnsubscribeGlobalProperties \<Rightarrow>
          Replied (ws_send ws (response rid (unsubscribed ''global_properties''))
            (s\<lparr>subscribers := (subscribers s)\<lparr>sub_globalProperties :=
                  set_delete ws (sub_globalProperties (subscribers s))\<rparr>\<rparr>))
      | Some SubscribeBlocks \<Rightarrow>
          Replied (ws_send ws (response rid (subscribed ''blocks''))
            (s\<lparr>subscribers := (subscribers s)\<lparr>sub_blocks :=
                  set_add ws (sub_blocks (subscribers s))\<rparr>\<rparr>))
      | Some UnsubscribeBlocks \<Rightarrow>
          Replied (ws_send ws (response rid (unsubscribed ''blocks''))
            (s\<lparr>subscribers := (subscribers s)\<lparr>sub_blocks :=
                  set_delete ws (sub_blocks (subscribers s))\<rparr>\<rparr>))
      | Some SubscribeBlockHeaders \<Rightarrow>
          Replied (ws_send ws (response rid (subscribed ''block_headers''))
            (s\<lparr>subscribers := (subscribers s)\<lparr>sub_blockHeaders :=
                  set_add ws (sub_blockHeaders (subscribers s))\<rparr>\<rparr>))
      | Some UnsubscribeBlockHeaders \<Rightarrow>
          Replied (ws_send ws (response rid (unsubscribed ''block_headers''))
            (s\<lparr>subscribers := (subscribers s)\<lparr>sub_blockHeaders :=
                  set_delete ws (sub_blockHeaders (subscribers s))\<rparr>\<rparr>))
      | Some SubscribeOperations \<Rightarrow>
          Replied (ws_send ws (response rid (subscribed ''operations''))
            (s\<lparr>subscribers := (subscribers s)\<lparr>sub_operations :=
                  set_add ws (sub_operations (subscribers s))\<rparr>\<rparr>))
      | Some UnsubscribeOperations \<Rightarrow>
          Replied (ws_send ws (response rid (unsubscribed ''operations''))
            (s\<lparr>subscribers := (subscribers s)\<lparr>sub_operations :=
                  set_delete ws (sub_operations (subscribers s))\<rparr>\<rparr>))
      | Some SubscribeWitnesses \<Rightarrow>
          (let s1 = s\<lparr>subscribers := (subscribers s)\<lparr>sub_witnesses :=
                        set_add ws (sub_witnesses (subscribers s))\<rparr>\<rparr>;
               s2 = ws_send ws (response rid (subscribed ''witnesses'')) s1
           in Replied (if truthy (activeWitnesses (cache s2))
                       then ws_send ws (subscription_update ''witnesses''
                                          (activeWitnesses (cache s2)) (clock s2)) s2
                       else s2))
      | Some UnsubscribeWitnesses \<Rightarrow>
          Replied (ws_send ws (response rid (unsubscribed ''witnesses''))
            (s\<lparr>subscribers := (subscribers s)\<lparr>sub_witnesses :=
                  set_delete ws (sub_witnesses (subscribers s))\<rparr>\<rparr>)))"

text \<open>
  \<open>error?.message || error?.toString() || "Unknown error occurred"\<close>; \<open>toString\<close> of
  an error is its name, its message, or the two joined by a colon.
\<close>

definition error_toString :: "js_error \<Rightarrow> string" where
  "error_toString e =
     (if err_name e = [] then err_message e
      else if err_message e = [] then err_name e
      else err_name e @ '': '' @ err_message e)"

definition errorMessage_of :: "js_error \<Rightarrow> string" where
  "errorMessage_of e =
     (if err_message e \<noteq> [] then err_message e
      else if error_toString e \<noteq> [] then error_toString e
      else ''Unknown error occurred'')"

definition error_frame :: "jsval \<Rightarrow> string \<Rightarrow> jsval \<Rightarrow> frame" where
  "error_frame errorId errorMessage errorMethod =
     stringify [(''id'', Val errorId), (''error'', Val (JStr errorMessage)),
                (''type'', Val (JStr ''error'')), (''method'', Val errorMethod)]"

text \<open>\<open>const { id, method, params = [] } = data\<close>: a property of the parsed frame.\<close>

definition get_prop :: "jsval \<Rightarrow> string \<Rightarrow> jsval" where
  "get_prop data k = (case data of JObj kvs \<Rightarrow> obj_get kvs k | _ \<Rightarrow> JUndefined)"

text \<open>\<open>params = []\<close>: the default applies to a missing \<open>params\<close> only.\<close>

definition params_of :: "jsval \<Rightarrow> jsval" where
  "params_of data = (if get_prop data ''params'' = JUndefined then JArr []
                     else get_prop data ''params'')"

text \<open>The frame \<open>handleMessage\<close> sends for a frame without a method.\<close>

definition method_required_frame :: "jsval \<Rightarrow> frame" where
  "method_required_frame rid =
     stringify [(''id'', Val rid), (''error'', Val (JStr ''Method is required'')),
                (''type'', Val (JStr ''error''))]"

text \<open>
  \<open>handleMessage(ws, data)\<close>. Destructuring \<open>null\<close> throws before the \<open>try\<close>: that is
  the \<open>Inl\<close> result, which \<open>processQueue\<close> catches.
\<close>

definition handleMessage :: "upstream \<Rightarrow> sid \<Rightarrow> jsval \<Rightarrow> server \<Rightarrow> js_error + server" where
  "handleMessage up ws data s =
     (if nullish data
      then Inl (TypeError (''Cannot destructure property '' @ quoted ''id'' @ '' of '' @ quoted ''data''
                      @ '' as it is '' @ js_to_string data @ ''.''))
      else
        let rid = get_prop data ''id''; method = get_prop data ''method'';
            params = params_of data
        in if \<not> truthy method
           then Inr (ws_send ws (method_required_frame rid) s)
           else
             (case dispatch up ws rid method params s of
                Replied s' \<Rightarrow> Inr s'
              | Result result s' \<Rightarrow> Inr (ws_send ws (response rid result) s')
              | Thrown error s' \<Rightarrow>
                  let errorMessage = errorMessage_of error;
                      errorId = js_or rid (JStr ''unknown'');
                      errorMethod = js_or method (JStr ''unknown_method'');
                      s3 = (if str_includes errorMessage ''network'' \<or>
                                str_includes errorMessage ''timeout''
                             then switchNode s' else s')
                  in Inr (ws_send ws (error_frame errorId errorMessage errorMethod) s3)))"

section \<open>The connection front-end\<close>

definition welcome_frame :: "frame" where
  "welcome_frame = stringify
     [(''type'', Val (JStr ''connection'')), (''status'', Val (JStr ''connected'')),
      (''message'', Val (JStr ''Connected to Steem WebSocket API'')),
      (''availableApis'', Val (JArr (map JStr
         [''get_dynamic_global_properties'', ''get_block_header'', ''get_block'',
          ''get_ops_in_block'', ''get_active_witnesses'', ''get_transaction'', ''get_ticker'',
          ''get_order_book'', ''get_recent_trades'', ''get_accounts'', ''get_market_history'',
          ''get_account_history'', ''get_witnesses_by_vote'', ''get_vesting_delegations'']))),
      (''subscriptionApis'', Val (JArr (map JStr
         [''subscribe_global_properties'', ''unsubscribe_global_properties'',
          ''subscribe_blocks'', ''unsubscribe_blocks'', ''subscribe_block_headers'',
          ''unsubscribe_block_headers'', ''subscribe_operations'', ''unsubscribe_operations'',
          ''subscribe_witnesses'', ''unsubscribe_witnesses'']))),
      (''rateLimits'', Val (JObj [(''requestsPerMinute'', JNum 2000),
                                  (''subscriptionsUnlimited'', JBool True)]))]"

text \<open>
  The \<open>connection\<close> handler: the new socket is already among \<open>wss.clients\<close>. Over the
  cap it is closed with code 1008; otherwise it gets its rate-limit fields and the hello.
\<close>

definition on_connection :: "sid \<Rightarrow> server \<Rightarrow> server" where
  "on_connection ws s =
     (let fresh = \<lparr>sess_id = ws, readyState = OPEN, messageCount = 0, lastReset = 0,
                    maxMessagesPerMinute = 0\<rparr>
      in if length (clients s) + 1 > 100
         then log_event (Closed ws 1008 ''Server at capacity'')
                (s\<lparr>clients := clients s @ [fresh\<lparr>readyState := CLOSING\<rparr>]\<rparr>)
         else ws_send ws welcome_frame
                (s\<lparr>clients := clients s @ [fresh\<lparr>messageCount := 0, lastReset := clock s,
                                               maxMessagesPerMinute := 2000\<rparr>]\<rparr>))"








section \<open>The poll driver\<close>

text \<open>An object literal as \<open>JSON.stringify\<close> renders it inside a frame.\<close>

definition json_obj :: "(string \<times> jsval) list \<Rightarrow> jsval" where
  "json_obj kvs = JObj (filter (\<lambda>p. snd p \<noteq> JUndefined) kvs)"

text \<open>
  \<open>processNewBlockForSubscriptions\<close>: the derived artifacts are fetched only for feeds
  that have subscribers; a failed fetch is logged and skipped.
\<close>

definition processNewBlockForSubscriptions :: "upstream \<Rightarrow> jsval \<Rightarrow> server \<Rightarrow> server" where
  "processNewBlockForSubscriptions up blockNumber s =
     (if sub_blocks (subscribers s) \<noteq> [] \<or> sub_blockHeaders (subscribers s) \<noteq> [] \<or>
         sub_operations (subscribers s) \<noteq> []
      then
        let s1 = (if sub_blockHeaders (subscribers s) \<noteq> []
                  then (case getBlockHeader up blockNumber s of
                          (Inl error, s') \<Rightarrow> s'
                        | (Inr blockHeader, s') \<Rightarrow>
                            set_sub_blockHeaders
                              (broadcastToSubscribers (sub_blockHeaders (subscribers s'))
                                 (subscription_update ''block_headers''
                                    (json_obj [(''blockNumber'', blockNumber),
                                               (''header'', blockHeader)]) (clock s')) s'))
                  else s);
            s2 = (if sub_blocks (subscribers s1) \<noteq> [] \<or> sub_operations (subscribers s1) \<noteq> []
                  then (case getBlock up blockNumber s1 of
                          (Inl error, s') \<Rightarrow> s'
                        | (Inr fullBlock, s') \<Rightarrow>
                            let s3 = (if sub_blocks (subscribers s') \<noteq> []
                                      then set_sub_blocks
                                             (broadcastToSubscribers (sub_blocks (subscribers s'))
                                                (subscription_update ''blocks''
                                                   (json_obj [(''blockNumber'', blockNumber),
                                                              (''block'', fullBlock)]) (clock s')) s')
                                      else s')
                            in if sub_operations (subscribers s3) \<noteq> []
                               then (case getOpsInBlock up blockNumber (JBool False) s3 of
                                       (Inl error, s4) \<Rightarrow> s4
                                     | (Inr ops, s4) \<Rightarrow>
                                         set_sub_operations
                                           (broadcastToSubscribers (sub_operations (subscribers s4))
                                              (subscription_update ''operations''
                                                 (json_obj [(''blockNumber'', blockNumber),
                                                            (''operations'', ops)]) (clock s4)) s4))
                               else s3)
                  else s1)
        in s2\<lparr>lastProcessedBlock := blockNumber\<rparr>
      else s\<lparr>lastProcessedBlock := blockNumber\<rparr>)"

text \<open>\<open>this.cache.globalProperties?.head_block_number\<close>.\<close>

definition head_block_number :: "jsval \<Rightarrow> jsval" where
  "head_block_number gp = get_prop gp ''head_block_number''"

definition legacy_frame :: "jsval \<Rightarrow> int \<Rightarrow> frame" where
  "legacy_frame payload now =
     stringify [(''type'', Val (JStr ''broadcast'')),
                (''method'', Val (JStr ''dynamic_global_properties_update'')),
                (''data'', Val payload),
                (''timestamp'', IsoTime now)]"

text \<open>The legacy broadcast: every client that is open and not a head-state subscriber.\<close>

definition legacy_broadcast :: "server \<Rightarrow> server" where
  "legacy_broadcast s =
     foldl (\<lambda>st client.
              if readyState client = OPEN \<and>
                 sess_id client \<notin> set (sub_globalProperties (subscribers s))
              then ws_send (sess_id client)
                     (legacy_frame (globalProperties (cache s)) (clock s)) st
              else st)
       s (clients s)"

text \<open>
  Frames that the dispatcher handles while another task is suspended at an \<open>await\<close>.
\<close>

fun interleave :: "upstream \<Rightarrow> (sid \<times> jsval) list \<Rightarrow> server \<Rightarrow> server" where
  "interleave up [] s = s"
| "interleave up ((ws, data) # rest) s =
     interleave up rest (case handleMessage up ws data s of Inl e \<Rightarrow> s | Inr s' \<Rightarrow> s')"

text \<open>
  One run of the 3-second timer of \<open>setupPeriodicUpdates\<close>. Between the broadcast to
  the head-state subscribers and the legacy broadcast the driver waits for
  \<open>processNewBlockForSubscriptions\<close>, whose upstream calls let other handlers run:
  \<open>during\<close> are the frames dispatched in that wait, taken at its start.
  \<open>head_block_number\<close> is a number, so \<open>!==\<close> compares values.
\<close>

definition pollTick :: "upstream \<Rightarrow> (sid \<times> jsval) list \<Rightarrow> server \<Rightarrow> server" where
  "pollTick up during s =
     (let previousBlock = head_block_number (globalProperties (cache s))
      in case getDynamicGlobalProperties up s of
           (Inl error, s1) \<Rightarrow> switchNode s1
         | (Inr gp, s1) \<Rightarrow>
             let currentBlock = head_block_number (globalProperties (cache s1))
             in if truthy (globalProperties (cache s1)) \<and> currentBlock \<noteq> previousBlock
                then
                  let s2 = (if sub_globalProperties (subscribers s1) \<noteq> []
                            then set_sub_globalProperties
                                   (broadcastToSubscribers (sub_globalProperties (subscribers s1))
                                      (subscription_update ''global_properties''
                                         (globalProperties (cache s1)) (clock s1)) s1)
                            else s1);
                      s3 = interleave up during s2;
                      s4 = processNewBlockForSubscriptions up currentBlock s3
                  in legacy_broadcast s4
                else s1)"

text \<open>The frames a socket has been sent, in order.\<close>

fun frames_to :: "sid \<Rightarrow> event list \<Rightarrow> frame list" where
  "frames_to ws [] = []"
| "frames_to ws (Sent ws' f # evs) = (if ws' = ws then f # frames_to ws evs else frames_to ws evs)"
| "frames_to ws (e # evs) = frames_to ws evs"

definition frame_field :: "frame \<Rightarrow> string \<Rightarrow> fval option" where
  "frame_field f k = map_of f k"

section \<open>Error frames and events on the wire\<close>

definition is_error_frame :: "frame \<Rightarrow> bool" where
  "is_error_frame f \<longleftrightarrow> frame_field f ''type'' = Some (Val (JStr ''error''))"

text \<open>Events that are neither a send nor a close: upstream calls, failovers, delays.\<close>

fun internal :: "event \<Rightarrow> bool" where
  "internal (Sent ws f) = False"
| "internal (Closed ws code reason) = False"
| "internal e = True"

text \<open>Events other than the close of a socket or the send of an error frame.\<close>

fun quiet :: "event \<Rightarrow> bool" where
  "quiet (Sent ws f) = (\<not> is_error_frame f)"
| "quiet (Closed ws code reason) = False"
| "quiet e = True"

text \<open>A step that touches no socket, no subscriber set and not the queue.\<close>

definition internal_step :: "server \<Rightarrow> server \<Rightarrow> bool" where
  "internal_step s s' \<longleftrightarrow>
     subscribers s' = subscribers s \<and> clients s' = clients s \<and>
     requestQueue s' = requestQueue s \<and> maxQueueSize s' = maxQueueSize s \<and>
     (\<exists>evs. trace s' = trace s @ evs \<and> list_all internal evs)"

text \<open>A step that closes no socket and sends no error frame.\<close>

definition quiet_step :: "server \<Rightarrow> server \<Rightarrow> bool" where
  "quiet_step s s' \<longleftrightarrow> (\<exists>evs. trace s' = trace s @ evs \<and> list_all quiet evs)"

fun dispatched_state :: "dispatched \<Rightarrow> server" where
  "dispatched_state (Replied s) = s"
| "dispatched_state (Result v s) = s"
| "dispatched_state (Thrown e s) = s"


text \<open>
  The error frame in the words of the specification: an \<open>id\<close>, the type \<open>error\<close>, an
  error string and a method string.
\<close>

definition is_string_field :: "frame \<Rightarrow> string \<Rightarrow> bool" where
  "is_string_field f k = (case frame_field f k of Some (Val (JStr x)) \<Rightarrow> True | _ \<Rightarrow> False)"


text \<open>
  The error frame of the \<open>catch\<close> block of \<open>handleMessage\<close> for a request: exactly the
  four properties, with the id of the request (or \<open>unknown\<close> for a falsy one) and its
  method.
\<close>

definition catch_frame_for :: "jsval \<Rightarrow> frame \<Rightarrow> bool" where
  "catch_frame_for data f \<longleftrightarrow>
     map fst f = [''id'', ''error'', ''type'', ''method''] \<and>
     frame_field f ''id'' = Some (Val (js_or (get_prop data ''id'') (JStr ''unknown''))) \<and>
     is_error_frame f \<and> is_string_field f ''error'' \<and>
     frame_field f ''method'' = Some (Val (get_prop data ''method''))"

text \<open>
  What a client may see of an error while \<open>handleMessage\<close> works on its frame: no socket
  is closed, and an error frame goes to the client itself and is the frame of the \<open>catch\<close>
  block or the one for a missing method.
\<close>

fun error_event_ok :: "sid \<Rightarrow> jsval \<Rightarrow> event \<Rightarrow> bool" where
  "error_event_ok ws data (Sent w f) =
     (is_error_frame f \<longrightarrow>
        w = ws \<and> (catch_frame_for data f \<or> f = method_required_frame (get_prop data ''id'')))"
| "error_event_ok ws data (Closed w code reason) = False"
| "error_event_ok ws data e = True"

text \<open>A socket as the connection handler sets it up at time 0.\<close>

definition example_session :: session where
  "example_session = \<lparr>sess_id = 1, readyState = OPEN, messageCount = 0, lastReset = 0,
     maxMessagesPerMinute = 2000\<rparr>"

section \<open>Frames of one session over time\<close>




text \<open>The trace of \<open>s'\<close> continues that of \<open>s\<close>.\<close>

definition continues :: "server \<Rightarrow> server \<Rightarrow> bool" where
  "continues s s' \<longleftrightarrow> (\<exists>evs. trace s' = trace s @ evs)"

section \<open>Scenarios\<close>

text \<open>
  An upstream that is up: head block 101, a block without transactions, and \<open>null\<close> for
  everything else; each call takes 20 ms.
\<close>

definition head_upstream :: upstream where
  "head_upstream k i method args =
     \<lparr>took = 20,
      outcome = (if method = ''getDynamicGlobalProperties''
                 then Inr (JObj [(''head_block_number'', JNum 101)])
                 else if method = ''getBlock''
                 then Inr (JObj [(''transactions'', JArr [])])
                 else Inr JNull)\<rparr>"

text \<open>
  Two open clients: client 1 subscribed to the head state, client 2 to full blocks. The
  cached head state (block 100) is older than its TTL.
\<close>

definition poll_server :: server where
  "poll_server = example_server\<lparr>
     clients := [example_session, example_session\<lparr>sess_id := 2\<rparr>],
     subscribers := \<lparr>sub_globalProperties = [1], sub_blocks = [2], sub_blockHeaders = [],
       sub_operations = [], sub_witnesses = []\<rparr>\<rparr>"

text \<open>A server on which every endpoint has failed within the last minute.\<close>

definition degraded_server :: server where
  "degraded_server = example_server\<lparr>
     nodeHealth := map (\<lambda>h. h\<lparr>healthy := False, lastError := Some 490000\<rparr>)
                     (nodeHealth example_server)\<rparr>"

section \<open>Frames through the whole front-end\<close>










section \<open>Properties of the bounded maps\<close>

lemma map_set_length: "length (map_set k v m) \<le> Suc (length m)"
  by (induction m) auto

lemma map_set_get_same: "map_of (map_set k v m) k = Some v"
  by (induction m) auto

lemma map_set_get_other: "k' \<noteq> k \<Longrightarrow> map_of (map_set k v m) k' = map_of m k'"
  by (induction m) auto

lemma map_delete_length: "length (map_delete k m) \<le> length m"
  by (simp add: map_delete_def)

lemma map_delete_get_same: "map_of (map_delete k m) k = None"
  by (induction m) (auto simp: map_delete_def)

lemma map_delete_get_other: "k' \<noteq> k \<Longrightarrow> map_of (map_delete k m) k' = map_of m k'"
  by (induction m) (auto simp: map_delete_def)

lemma map_delete_head_length: "length (map_delete k ((k, v) # m)) \<le> length m"
  by (simp add: map_delete_def)

lemma setCacheItem_size:
  assumes "0 < mx" and "map_size m \<le> mx"
  shows "map_size (setCacheItem mx now m key v) \<le> mx"
proof (cases "map_size m \<ge> mx")
  case False
  then have "Suc (length m) \<le> mx" by (simp add: map_size_def)
  with False show ?thesis
    using map_set_length [of key "\<lparr>item_value = v, timestamp = now\<rparr>" m]
    by (simp add: setCacheItem_def map_size_def)
next
  case True
  with assms have len: "length m = mx" by (simp add: map_size_def)
  with assms obtain k0 e0 rest where m: "m = (k0, e0) # rest" by (cases m) auto
  have "length (map_delete k0 m) \<le> length rest"
    unfolding m by (rule map_delete_head_length)
  then have "Suc (length (map_delete k0 m)) \<le> mx" using len m by simp
  then show ?thesis
    using True m map_set_length [of key "\<lparr>item_value = v, timestamp = now\<rparr>" "map_delete k0 m"]
    by (simp add: setCacheItem_def map_size_def)
qed

lemma getCacheItem_size:
  "map_size (fst (getCacheItem now stats m key ttl)) \<le> map_size m"
  by (simp add: getCacheItem_def map_size_def map_delete_length split: option.splits)

lemma cache_step_bounded:
  assumes "0 < maxCacheSize c" and "cache_bounded c"
  shows "cache_bounded (cache_step c op) \<and> maxCacheSize (cache_step c op) = maxCacheSize c"
proof (cases op)
  case (Store w key v now)
  with assms show ?thesis
    using setCacheItem_size [of "maxCacheSize c" "the_map w c" now key v]
    by (cases w) (simp_all add: cache_bounded_def the_map_def put_map_def)
next
  case (Lookup w key now)
  with assms show ?thesis
    using getCacheItem_size [of now zero_stats "the_map w c" key "blockTTL c"]
    by (cases w) (simp_all add: cache_bounded_def the_map_def put_map_def)
next
  case Clear
  then show ?thesis
    by (simp add: cache_bounded_def clearCache_def map_clear_def map_size_def)
qed

lemma cache_steps_bounded:
  "0 < maxCacheSize c \<Longrightarrow> cache_bounded c \<Longrightarrow>
   cache_bounded (foldl cache_step c ops) \<and> maxCacheSize (foldl cache_step c ops) = maxCacheSize c"
proof (induction ops arbitrary: c)
  case Nil
  then show ?case by simp
next
  case (Cons op ops)
  from cache_step_bounded [OF Cons.prems]
  have b: "cache_bounded (cache_step c op)" and m: "maxCacheSize (cache_step c op) = maxCacheSize c"
    by simp_all
  from Cons.prems m have "0 < maxCacheSize (cache_step c op)" by simp
  from Cons.IH [OF this b] m show ?case by simp
qed

lemma initial_cache_bounded: "cache_bounded initial_cache \<and> maxCacheSize initial_cache = 1000"
  by (simp add: cache_bounded_def initial_cache_def map_size_def)


lemma setCacheItem_get_same:
  "map_get (setCacheItem mx now m key v) key = Some \<lparr>item_value = v, timestamp = now\<rparr>"
  by (simp add: setCacheItem_def map_get_def map_set_get_same Let_def)

lemma setCacheItem_below_bound:
  "map_size m < mx \<Longrightarrow> k \<noteq> key \<Longrightarrow> map_get (setCacheItem mx now m key v) k = map_get m k"
  by (simp add: setCacheItem_def map_get_def map_set_get_other)

lemma setCacheItem_at_bound:
  assumes "map_size m \<ge> mx" and "m = (k0, e0) # rest"
  shows "(k0 \<noteq> key \<longrightarrow> map_get (setCacheItem mx now m key v) k0 = None) \<and>
         (\<forall>k. k \<noteq> key \<and> k \<noteq> k0 \<longrightarrow> map_get (setCacheItem mx now m key v) k = map_get m k)"
proof -
  have eq: "setCacheItem mx now m key v =
      map_set key \<lparr>item_value = v, timestamp = now\<rparr> (map_delete k0 m)"
    using assms by (simp add: setCacheItem_def)
  show ?thesis
    unfolding eq map_get_def
    by (simp add: map_set_get_other map_delete_get_same map_delete_get_other)
qed

section \<open>The cache size bound\<close>

text \<open>
  Claim C5. \<open>setCacheItem\<close> stores the new entry with the current timestamp; below the
  bound it evicts nothing, and at the bound it first deletes the entry at the front of
  the insertion order, the oldest inserted, and leaves every other entry as it was. After
  any sequence of stores, lookups and clears on a cache that starts within the bound, each
  of the three maps holds at most \<open>maxCacheSize\<close> entries.
\<close>

theorem setCacheItem_evicts_oldest_and_bounds:
  assumes "0 < maxCacheSize c" and "cache_bounded c"
  shows "cache_bounded (foldl cache_step c ops) \<and>
    (\<forall>m key v now. map_size m \<le> maxCacheSize c \<longrightarrow>
       map_size (setCacheItem (maxCacheSize c) now m key v) \<le> maxCacheSize c \<and>
       map_get (setCacheItem (maxCacheSize c) now m key v) key
         = Some \<lparr>item_value = v, timestamp = now\<rparr> \<and>
       (map_size m < maxCacheSize c \<longrightarrow>
          (\<forall>k. k \<noteq> key \<longrightarrow> map_get (setCacheItem (maxCacheSize c) now m key v) k = map_get m k)) \<and>
       (map_size m = maxCacheSize c \<longrightarrow>
          (\<exists>oldestKey e rest. m = (oldestKey, e) # rest \<and>
             (oldestKey \<noteq> key \<longrightarrow>
                map_get (setCacheItem (maxCacheSize c) now m key v) oldestKey = None) \<and>
             (\<forall>k. k \<noteq> key \<and> k \<noteq> oldestKey \<longrightarrow>
                map_get (setCacheItem (maxCacheSize c) now m key v) k = map_get m k))))"
proof (intro conjI allI impI)
  show "cache_bounded (foldl cache_step c ops)"
    using cache_steps_bounded [OF assms] by simp
next
  fix m key v now
  assume "map_size m \<le> maxCacheSize c"
  then show "map_size (setCacheItem (maxCacheSize c) now m key v) \<le> maxCacheSize c"
    using assms(1) by (rule setCacheItem_size [rotated])
next
  fix m key v now
  show "map_get (setCacheItem (maxCacheSize c) now m key v) key
          = Some \<lparr>item_value = v, timestamp = now\<rparr>"
    by (rule setCacheItem_get_same)
next
  fix m :: jsmap and key k :: string and v :: jsval and now :: int
  assume "map_size m < maxCacheSize c" and "k \<noteq> key"
  then show "map_get (setCacheItem (maxCacheSize c) now m key v) k = map_get m k"
    by (rule setCacheItem_below_bound)
next
  fix m :: jsmap and key :: string and v :: jsval and now :: int
  assume full: "map_size m = maxCacheSize c"
  with assms(1) obtain k0 e0 rest where m: "m = (k0, e0) # rest"
    by (cases m) (auto simp: map_size_def)
  from full have "map_size m \<ge> maxCacheSize c" by simp
  from setCacheItem_at_bound [OF this m] m
  show "\<exists>oldestKey e rest. m = (oldestKey, e) # rest \<and>
             (oldestKey \<noteq> key \<longrightarrow>
                map_get (setCacheItem (maxCacheSize c) now m key v) oldestKey = None) \<and>
             (\<forall>k. k \<noteq> key \<and> k \<noteq> oldestKey \<longrightarrow>
                map_get (setCacheItem (maxCacheSize c) now m key v) k = map_get m k)"
    by blast
qed

theorem setCacheItem_evicts_oldest_and_bounds_witness:
  "0 < maxCacheSize initial_cache \<and> cache_bounded initial_cache \<and>
   maxCacheSize initial_cache = 1000 \<and>
   cache_bounded (foldl cache_step initial_cache
     [Store Headers ''header_7'' (JNum 7) 10, Lookup Headers ''header_7'' 20,
      Store Blocks ''block_7'' (JNum 8) 30, Clear, Store Operations ''ops_7_false'' (JArr []) 40])"
proof -
  have h1: "0 < maxCacheSize initial_cache" by (simp add: initial_cache_def)
  have h2: "cache_bounded initial_cache" by (simp add: initial_cache_bounded)
  show ?thesis
    using setCacheItem_evicts_oldest_and_bounds [OF h1 h2,
        of "[Store Headers ''header_7'' (JNum 7) 10, Lookup Headers ''header_7'' 20,
             Store Blocks ''block_7'' (JNum 8) 30, Clear,
             Store Operations ''ops_7_false'' (JArr []) 40]"] h1 h2 initial_cache_bounded
    by blast
qed

section \<open>Failover selection\<close>

lemma set_insert_by: "set (insert_by cmp x ys) = insert x (set ys)"
  by (induction ys) auto

lemma set_js_sort: "set (js_sort cmp xs) = set xs"
  by (induction xs) (auto simp: js_sort_def set_insert_by)

lemma js_sort_Cons: "js_sort cmp (x # xs) = insert_by cmp x (js_sort cmp xs)"
  by (simp add: js_sort_def)

lemma sorted_insert_by:
  assumes total: "\<forall>x y. cmp x y \<le> 0 \<or> cmp y x \<le> 0"
    and trans: "\<forall>x y z. cmp x y \<le> 0 \<longrightarrow> cmp y z \<le> 0 \<longrightarrow> cmp x z \<le> 0"
    and srt: "sorted_wrt (\<lambda>a b. cmp a b \<le> 0) ys"
  shows "sorted_wrt (\<lambda>a b. cmp a b \<le> 0) (insert_by cmp x ys)"
  using srt
proof (induction ys)
  case Nil
  then show ?case by simp
next
  case (Cons y ys)
  show ?case
  proof (cases "cmp x y \<le> 0")
    case True
    with Cons.prems show ?thesis using trans by auto
  next
    case False
    with total have "cmp y x \<le> 0" by blast
    with False Cons show ?thesis by (auto simp: set_insert_by)
  qed
qed

lemma sorted_js_sort:
  assumes total: "\<forall>x y. cmp x y \<le> 0 \<or> cmp y x \<le> 0"
    and trans: "\<forall>x y z. cmp x y \<le> 0 \<longrightarrow> cmp y z \<le> 0 \<longrightarrow> cmp x z \<le> 0"
  shows "sorted_wrt (\<lambda>a b. cmp a b \<le> 0) (js_sort cmp xs)"
proof (induction xs)
  case Nil
  show ?case by (simp add: js_sort_def)
next
  case (Cons x xs)
  then show ?case
    unfolding js_sort_Cons by (rule sorted_insert_by [OF total trans])
qed

lemma node_cmp_spec: "node_cmp a b \<le> 0 \<longleftrightarrow> spec_ranks_before (fst a) (fst b)"
  by (auto simp: node_cmp_def spec_ranks_before_def)

lemma node_cmp_total: "\<forall>a b. node_cmp a b \<le> 0 \<or> node_cmp b a \<le> 0"
  unfolding node_cmp_spec by (auto simp: spec_ranks_before_def)

lemma node_cmp_trans:
  "\<forall>a b c. node_cmp a b \<le> 0 \<longrightarrow> node_cmp b c \<le> 0 \<longrightarrow> node_cmp a c \<le> 0"
  unfolding node_cmp_spec by (auto simp: spec_ranks_before_def)

lemma node_cmp_refl: "node_cmp a a \<le> 0"
  by (simp add: node_cmp_def)

lemma healthyNodes_set:
  "set (healthyNodes now nh) = {(nh ! i, i) | i. i < length nh \<and> eligible now (nh ! i)}"
proof -
  have "set (zip nh [0..<length nh]) = {(nh ! i, i) | i. i < length nh}"
    by (auto simp: set_zip)
  then show ?thesis
    by (auto simp: healthyNodes_def set_js_sort)
qed

lemma healthyNodes_head:
  assumes "healthyNodes now nh = best # rest"
  shows "snd best < length nh \<and> fst best = nh ! snd best \<and> eligible now (nh ! snd best) \<and>
         (\<forall>j < length nh. eligible now (nh ! j) \<longrightarrow> spec_ranks_before (nh ! snd best) (nh ! j))"
proof -
  have mem: "best \<in> set (healthyNodes now nh)" using assms by simp
  then have b: "snd best < length nh \<and> fst best = nh ! snd best \<and> eligible now (nh ! snd best)"
    unfolding healthyNodes_set by auto
  have "sorted_wrt (\<lambda>a b. node_cmp a b \<le> 0) (healthyNodes now nh)"
    unfolding healthyNodes_def by (rule sorted_js_sort [OF node_cmp_total node_cmp_trans])
  then have srt: "sorted_wrt (\<lambda>a b. node_cmp a b \<le> 0) (best # rest)"
    using assms by simp
  have "\<forall>j < length nh. eligible now (nh ! j) \<longrightarrow> spec_ranks_before (nh ! snd best) (nh ! j)"
  proof (intro allI impI)
    fix j assume j: "j < length nh" "eligible now (nh ! j)"
    then have "(nh ! j, j) \<in> set (best # rest)"
      using healthyNodes_set [of now nh] assms by auto
    then have "node_cmp best (nh ! j, j) \<le> 0"
      using srt node_cmp_refl by auto
    then show "spec_ranks_before (nh ! snd best) (nh ! j)"
      using b by (simp add: node_cmp_spec)
  qed
  with b show ?thesis by blast
qed

lemma marked_current_ineligible:
  "currentNodeIndex s < length (nodeHealth s) \<Longrightarrow>
   \<not> eligible (clock s) (marked s ! currentNodeIndex s)"
  by (simp add: marked_def eligible_def mark_unhealthy_def since_lastError_def)

lemma marked_other: "j \<noteq> currentNodeIndex s \<Longrightarrow> marked s ! j = nodeHealth s ! j"
  by (simp add: marked_def)

lemma length_marked: "length (marked s) = length (nodeHealth s)"
  by (simp add: marked_def)

lemma switchToHealthyNode_unfold:
  "currentNodeIndex s < length (nodeHealth s) \<Longrightarrow>
   switchToHealthyNode s =
     (case healthyNodes (clock s) (marked s) of
        [] \<Rightarrow> Inr (log_event Failover (s\<lparr>nodeHealth := marked s\<rparr>))
      | bestNode # _ \<Rightarrow>
          Inr ((log_event Failover (s\<lparr>nodeHealth := marked s\<rparr>))
                \<lparr>currentNodeIndex := snd bestNode,
                 cache := clearCache (cache s),
                 errorStats := (errorStats s)\<lparr>autoRecoveries :=
                     autoRecoveries (errorStats s) + 1\<rparr>\<rparr>))"
  by (simp add: switchToHealthyNode_def marked_def Let_def log_event_def split: list.splits)

text \<open>
  Claim C4. \<open>switchToHealthyNode\<close> marks the current endpoint unhealthy with its last
  error now. If some endpoint is healthy or has its last error more than 60 seconds back,
  the endpoint selected is such an endpoint, no such endpoint ranks strictly before it
  (healthy first, then lower error count, then lower average latency), and it is not the
  endpoint that just failed; if none is, the current index is retained.
\<close>

theorem switchToHealthyNode_selects_best_eligible:
  assumes "currentNodeIndex s < length (nodeHealth s)"
  shows "\<exists>s'. switchToHealthyNode s = Inr s' \<and> nodeHealth s' = marked s \<and>
     (if \<exists>j < length (marked s). eligible (clock s) (marked s ! j)
      then currentNodeIndex s' < length (marked s) \<and>
           eligible (clock s) (marked s ! currentNodeIndex s') \<and>
           (\<forall>j < length (marked s). eligible (clock s) (marked s ! j) \<longrightarrow>
              spec_ranks_before (marked s ! currentNodeIndex s') (marked s ! j)) \<and>
           currentNodeIndex s' \<noteq> currentNodeIndex s
      else currentNodeIndex s' = currentNodeIndex s) \<and>
     ((\<exists>j < length (nodeHealth s). j \<noteq> currentNodeIndex s \<and> eligible (clock s) (nodeHealth s ! j))
        \<longrightarrow> currentNodeIndex s' \<noteq> currentNodeIndex s)"
proof (cases "healthyNodes (clock s) (marked s)")
  case Nil
  then have none: "\<not> (\<exists>j < length (marked s). eligible (clock s) (marked s ! j))"
    using healthyNodes_set [of "clock s" "marked s"] by auto
  then have none': "\<not> (\<exists>j < length (nodeHealth s). j \<noteq> currentNodeIndex s \<and> eligible (clock s) (nodeHealth s ! j))"
    using marked_other [of _ s] by (auto simp: length_marked)
  show ?thesis
    using Nil none none' assms
    by (simp add: switchToHealthyNode_unfold log_event_def)
next
  case (Cons best rest)
  note h = healthyNodes_head [OF Cons]
  have some: "\<exists>j < length (marked s). eligible (clock s) (marked s ! j)"
    using h by blast
  have ne: "snd best \<noteq> currentNodeIndex s"
    using h marked_current_ineligible [OF assms] by auto
  show ?thesis
    using Cons some ne h assms
    by (simp add: switchToHealthyNode_unfold log_event_def)
qed


lemma example_valid: "currentNodeIndex example_server < length (nodeHealth example_server)"
  by (simp add: example_server_def initial_server_def steemNodes_def)

lemma example_other_eligible:
  "\<exists>j < length (nodeHealth example_server). j \<noteq> currentNodeIndex example_server \<and>
      eligible (clock example_server) (nodeHealth example_server ! j)"
  by (rule exI [of _ 1])
     (simp add: example_server_def initial_server_def steemNodes_def eligible_def initial_health_def)

theorem switchToHealthyNode_selects_best_eligible_witness:
  "currentNodeIndex example_server < length (nodeHealth example_server) \<and>
   (\<exists>j < length (nodeHealth example_server). j \<noteq> currentNodeIndex example_server \<and>
      eligible (clock example_server) (nodeHealth example_server ! j)) \<and>
   (\<exists>s'. switchToHealthyNode example_server = Inr s' \<and>
      currentNodeIndex s' \<noteq> currentNodeIndex example_server \<and>
      eligible (clock example_server) (marked example_server ! currentNodeIndex s'))"
  using switchToHealthyNode_selects_best_eligible [OF example_valid]
    example_valid example_other_eligible
  by (auto split: if_splits)



section \<open>What a node switch clears\<close>

lemma switchToHealthyNode_cache:
  assumes "currentNodeIndex s < length (nodeHealth s)"
  shows "\<exists>s'. switchToHealthyNode s = Inr s' \<and>
           cache s' = (if healthyNodes (clock s) (marked s) = [] then cache s
                       else clearCache (cache s))"
  using assms
  by (cases "healthyNodes (clock s) (marked s)")
     (simp_all add: switchToHealthyNode_unfold log_event_def)

text \<open>
  Claim C10. \<open>switchNode\<close> resets the head-state and witness slots and their timestamps
  and leaves the three bounded maps (and the rest of the cache record) as they were.
  \<open>clearCache\<close> empties the three maps as well, and \<open>switchToHealthyNode\<close> applies
  \<open>clearCache\<close> whenever it finds an endpoint to switch to.
\<close>

theorem switchNode_keeps_block_maps:
  "blockHeaders (cache (switchNode s)) = blockHeaders (cache s) \<and>
   blocks (cache (switchNode s)) = blocks (cache s) \<and>
   operations (cache (switchNode s)) = operations (cache s) \<and>
   cache (switchNode s) = (cache s)\<lparr>globalProperties := JNull, activeWitnesses := JNull,
      lastGlobalUpdate := 0, lastWitnessUpdate := 0\<rparr> \<and>
   blockHeaders (clearCache (cache s)) = [] \<and>
   blocks (clearCache (cache s)) = [] \<and>
   operations (clearCache (cache s)) = [] \<and>
   globalProperties (clearCache (cache s)) = JNull \<and>
   activeWitnesses (clearCache (cache s)) = JNull \<and>
   lastGlobalUpdate (clearCache (cache s)) = 0 \<and>
   lastWitnessUpdate (clearCache (cache s)) = 0 \<and>
   (currentNodeIndex s < length (nodeHealth s) \<longrightarrow>
      (\<exists>s'. switchToHealthyNode s = Inr s' \<and>
         (healthyNodes (clock s) (marked s) \<noteq> [] \<longrightarrow> cache s' = clearCache (cache s)) \<and>
         (healthyNodes (clock s) (marked s) = [] \<longrightarrow> cache s' = cache s)))"
proof -
  have a: "cache (switchNode s) = (cache s)\<lparr>globalProperties := JNull, activeWitnesses := JNull,
      lastGlobalUpdate := 0, lastWitnessUpdate := 0\<rparr>"
    by (simp add: switchNode_def)
  have b: "currentNodeIndex s < length (nodeHealth s) \<longrightarrow>
      (\<exists>s'. switchToHealthyNode s = Inr s' \<and>
         (healthyNodes (clock s) (marked s) \<noteq> [] \<longrightarrow> cache s' = clearCache (cache s)) \<and>
         (healthyNodes (clock s) (marked s) = [] \<longrightarrow> cache s' = cache s))"
    using switchToHealthyNode_cache [of s] by auto
  show ?thesis
    unfolding a using b by (simp add: clearCache_def map_clear_def)
qed

lemma example_healthyNodes: "healthyNodes (clock example_server) (marked example_server) \<noteq> []"
proof -
  have "(marked example_server ! 1, 1) \<in> set (healthyNodes (clock example_server) (marked example_server))"
    unfolding healthyNodes_set
    by (simp add: marked_def example_server_def initial_server_def steemNodes_def eligible_def
        initial_health_def)
  then show ?thesis by auto
qed

theorem switchNode_keeps_block_maps_witness:
  "currentNodeIndex example_server < length (nodeHealth example_server) \<and>
   healthyNodes (clock example_server) (marked example_server) \<noteq> [] \<and>
   blocks (cache (switchNode example_server))
     = [(''block_100'', \<lparr>item_value = JObj [], timestamp = 400000\<rparr>)] \<and>
   (\<exists>s'. switchToHealthyNode example_server = Inr s' \<and> blocks (cache s') = [])"
proof -
  have "blocks (cache example_server) = [(''block_100'', \<lparr>item_value = JObj [], timestamp = 400000\<rparr>)]"
    by (simp add: example_server_def)
  then show ?thesis
    using switchNode_keeps_block_maps [of example_server] example_valid example_healthyNodes
    by auto
qed


section \<open>The retrying caller: attempts, failover and backoff\<close>

lemma attempt_call_effect:
  "\<exists>s1. attempt_call up method params s
          = (call_outcome up method params (calls s) (currentNodeIndex s), s1) \<and>
        trace s1 = trace s @ call_events method params (currentNodeIndex s) \<and>
        calls s1 = calls s + calls_made method params \<and>
        currentNodeIndex s1 = currentNodeIndex s \<and>
        nodeHealth s1 = nodeHealth s \<and> clock s \<le> clock s1"
  by (cases "route method params")
     (simp_all add: attempt_call_def call_outcome_def call_events_def calls_made_def
        log_event_def Let_def)

lemma switchToHealthyNode_effect:
  assumes "currentNodeIndex s < length (nodeHealth s)"
  shows "\<exists>s'. switchToHealthyNode s = Inr s' \<and> trace s' = trace s @ [Failover] \<and>
           calls s' = calls s \<and> clock s' = clock s \<and>
           currentNodeIndex s' < length (nodeHealth s')"
proof (cases "healthyNodes (clock s) (marked s)")
  case Nil
  with assms show ?thesis
    by (simp add: switchToHealthyNode_unfold log_event_def length_marked)
next
  case (Cons best rest)
  from healthyNodes_head [OF Cons] have "snd best < length (nodeHealth s)"
    by (simp add: length_marked)
  with Cons assms show ?thesis
    by (simp add: switchToHealthyNode_unfold log_event_def length_marked)
qed

lemma loop_success:
  assumes "attempt \<le> maxRetries" and "currentNodeIndex s < length (nodeHealth s)"
    and "call_outcome up method params (calls s) (currentNodeIndex s) = Inr v"
  shows "\<exists>s'. callSteemAPI_loop up method params maxRetries attempt s = (Inr v, s') \<and>
           trace s' = trace s @ call_events method params (currentNodeIndex s) \<and>
           calls s' = calls s + calls_made method params"
proof -
  from attempt_call_effect [of up "method" params s] assms(3)
  obtain s1 where s1: "attempt_call up method params s = (Inr v, s1)"
    "trace s1 = trace s @ call_events method params (currentNodeIndex s)"
    "calls s1 = calls s + calls_made method params"
    "nodeHealth s1 = nodeHealth s" by auto
  show ?thesis
    using assms(1,2) s1
    by (subst callSteemAPI_loop.simps) (simp add: Let_def)
qed

lemma loop_last_failure:
  assumes "attempt = maxRetries" and "currentNodeIndex s < length (nodeHealth s)"
    and "call_outcome up method params (calls s) (currentNodeIndex s) = Inl e"
  shows "\<exists>s'. callSteemAPI_loop up method params maxRetries attempt s = (Inl e, s') \<and>
           trace s' = trace s @ call_events method params (currentNodeIndex s) \<and>
           calls s' = calls s + calls_made method params"
proof -
  from attempt_call_effect [of up "method" params s] assms(3)
  obtain s1 where s1: "attempt_call up method params s = (Inl e, s1)"
    "trace s1 = trace s @ call_events method params (currentNodeIndex s)"
    "calls s1 = calls s + calls_made method params"
    "nodeHealth s1 = nodeHealth s" by auto
  show ?thesis
    using assms(1,2) s1
    by (subst callSteemAPI_loop.simps) (simp add: Let_def)
qed

lemma loop_retry:
  assumes "attempt < maxRetries" and "currentNodeIndex s < length (nodeHealth s)"
    and "call_outcome up method params (calls s) (currentNodeIndex s) = Inl e"
  shows "\<exists>s3. callSteemAPI_loop up method params maxRetries attempt s
               = callSteemAPI_loop up method params maxRetries (attempt + 1) s3 \<and>
           trace s3 = trace s @ call_events method params (currentNodeIndex s)
                        @ [Failover, Sleep (1000 * int attempt)] \<and>
           calls s3 = calls s + calls_made method params \<and>
           currentNodeIndex s3 < length (nodeHealth s3)"
proof -
  from attempt_call_effect [of up "method" params s] assms(3)
  obtain s1 where s1: "attempt_call up method params s = (Inl e, s1)"
    "trace s1 = trace s @ call_events method params (currentNodeIndex s)"
    "calls s1 = calls s + calls_made method params"
    "nodeHealth s1 = nodeHealth s" "currentNodeIndex s1 = currentNodeIndex s" by auto
  define s2 where "s2 = s1\<lparr>nodeHealth := (nodeHealth s1)[currentNodeIndex s :=
                            record_failure (clock s1) (nodeHealth s1 ! currentNodeIndex s)]\<rparr>"
  have v2: "currentNodeIndex s2 < length (nodeHealth s2)"
    using assms(2) s1 by (simp add: s2_def)
  from switchToHealthyNode_effect [OF v2]
  obtain s3 where s3: "switchToHealthyNode s2 = Inr s3" "trace s3 = trace s2 @ [Failover]"
    "calls s3 = calls s2" "currentNodeIndex s3 < length (nodeHealth s3)" by auto
  have "callSteemAPI_loop up method params maxRetries attempt s
          = callSteemAPI_loop up method params maxRetries (attempt + 1)
              (sleep (1000 * int attempt) s3)"
    using assms(1,2) s1 s3(1)
    by (subst callSteemAPI_loop.simps) (simp add: Let_def s2_def)
  moreover have "trace (sleep (1000 * int attempt) s3)
      = trace s @ call_events method params (currentNodeIndex s) @ [Failover, Sleep (1000 * int attempt)]"
    using s3 s1 by (simp add: sleep_def log_event_def s2_def)
  moreover have "calls (sleep (1000 * int attempt) s3) = calls s + calls_made method params"
    using s3 s1 by (simp add: sleep_def log_event_def s2_def)
  moreover have "currentNodeIndex (sleep (1000 * int attempt) s3)
        < length (nodeHealth (sleep (1000 * int attempt) s3))"
    using s3 by (simp add: sleep_def log_event_def)
  ultimately show ?thesis by blast
qed


text \<open>
  Claim C3. For every method and parameter list, \<open>callSteemAPI\<close> makes at most three
  attempts (at most three upstream calls). A first attempt that succeeds ends the call;
  after a failed first attempt come the failover, a sleep of 1000 ms and the second
  attempt; after a failed second attempt come the failover, a sleep of 2000 ms and the
  third attempt, whose outcome, the error included, is the outcome of the call.
\<close>

theorem callSteemAPI_three_attempts:
  assumes "currentNodeIndex s < length (nodeHealth s)"
  shows "\<exists>i2 i3.
    (case call_outcome up method params (calls s) (currentNodeIndex s) of
       Inr v \<Rightarrow>
         fst (callSteemAPI up method params s) = Inr v \<and>
         trace (snd (callSteemAPI up method params s))
           = trace s @ call_events method params (currentNodeIndex s)
     | Inl e1 \<Rightarrow>
         (case call_outcome up method params (calls s + calls_made method params) i2 of
            Inr v \<Rightarrow>
              fst (callSteemAPI up method params s) = Inr v \<and>
              trace (snd (callSteemAPI up method params s))
                = trace s @ call_events method params (currentNodeIndex s)
                    @ [Failover, Sleep 1000] @ call_events method params i2
          | Inl e2 \<Rightarrow>
              fst (callSteemAPI up method params s)
                = call_outcome up method params (calls s + 2 * calls_made method params) i3 \<and>
              trace (snd (callSteemAPI up method params s))
                = trace s @ call_events method params (currentNodeIndex s)
                    @ [Failover, Sleep 1000] @ call_events method params i2
                    @ [Failover, Sleep 2000] @ call_events method params i3)) \<and>
    calls (snd (callSteemAPI up method params s)) \<le> calls s + 3"
proof (cases "call_outcome up method params (calls s) (currentNodeIndex s)")
  case (Inr v)
  from loop_success [of 1 3, OF _ assms Inr] Inr show ?thesis
    by (auto simp del: One_nat_def simp: callSteemAPI_def calls_made_def split: sum.splits)
next
  case (Inl e1)
  have "\<exists>s2. callSteemAPI_loop up method params 3 1 s
               = callSteemAPI_loop up method params 3 2 s2 \<and>
     trace s2 = trace s @ call_events method params (currentNodeIndex s) @ [Failover, Sleep 1000] \<and>
     calls s2 = calls s + calls_made method params \<and>
     currentNodeIndex s2 < length (nodeHealth s2)"
    using loop_retry [of 1 3, OF _ assms Inl] by (simp del: One_nat_def)
  then obtain s2 where s2: "callSteemAPI_loop up method params 3 1 s
               = callSteemAPI_loop up method params 3 2 s2"
     "trace s2 = trace s @ call_events method params (currentNodeIndex s) @ [Failover, Sleep 1000]"
     "calls s2 = calls s + calls_made method params"
     "currentNodeIndex s2 < length (nodeHealth s2)" by auto
  have cm: "calls_made method params \<le> 1"
    by (simp add: calls_made_def split: sum.splits)
  show ?thesis
  proof (cases "call_outcome up method params (calls s2) (currentNodeIndex s2)")
    case (Inr v)
    from loop_success [of 2 3, OF _ s2(4) Inr] Inr Inl s2 cm
    have "(case call_outcome up method params (calls s) (currentNodeIndex s) of
       Inr v \<Rightarrow>
         fst (callSteemAPI up method params s) = Inr v \<and>
         trace (snd (callSteemAPI up method params s))
           = trace s @ call_events method params (currentNodeIndex s)
     | Inl e1 \<Rightarrow>
         (case call_outcome up method params (calls s + calls_made method params) (currentNodeIndex s2) of
            Inr v \<Rightarrow>
              fst (callSteemAPI up method params s) = Inr v \<and>
              trace (snd (callSteemAPI up method params s))
                = trace s @ call_events method params (currentNodeIndex s)
                    @ [Failover, Sleep 1000] @ call_events method params (currentNodeIndex s2)
          | Inl e2 \<Rightarrow>
              fst (callSteemAPI up method params s)
                = call_outcome up method params (calls s + 2 * calls_made method params) 0 \<and>
              trace (snd (callSteemAPI up method params s))
                = trace s @ call_events method params (currentNodeIndex s)
                    @ [Failover, Sleep 1000] @ call_events method params (currentNodeIndex s2)
                    @ [Failover, Sleep 2000] @ call_events method params 0)) \<and>
    calls (snd (callSteemAPI up method params s)) \<le> calls s + 3"
      by (auto simp del: One_nat_def simp: callSteemAPI_def)
    then show ?thesis by blast
  next
    case i2: (Inl e2)
    have "\<exists>s3. callSteemAPI_loop up method params 3 2 s2
               = callSteemAPI_loop up method params 3 3 s3 \<and>
     trace s3 = trace s2 @ call_events method params (currentNodeIndex s2) @ [Failover, Sleep 2000] \<and>
     calls s3 = calls s2 + calls_made method params \<and>
     currentNodeIndex s3 < length (nodeHealth s3)"
      using loop_retry [of 2 3, OF _ s2(4) i2] by (simp del: One_nat_def)
    then obtain s3 where s3: "callSteemAPI_loop up method params 3 2 s2
               = callSteemAPI_loop up method params 3 3 s3"
     "trace s3 = trace s2 @ call_events method params (currentNodeIndex s2) @ [Failover, Sleep 2000]"
     "calls s3 = calls s2 + calls_made method params"
     "currentNodeIndex s3 < length (nodeHealth s3)" by auto
    have fin: "\<exists>s'. callSteemAPI_loop up method params 3 3 s3
         = (call_outcome up method params (calls s3) (currentNodeIndex s3), s') \<and>
           trace s' = trace s3 @ call_events method params (currentNodeIndex s3) \<and>
           calls s' = calls s3 + calls_made method params"
    proof (cases "call_outcome up method params (calls s3) (currentNodeIndex s3)")
      case (Inl e3)
      from loop_last_failure [of 3 3, OF _ s3(4) Inl] Inl show ?thesis by auto
    next
      case (Inr v)
      from loop_success [of 3 3, OF _ s3(4) Inr] Inr show ?thesis by auto
    qed
    have c3: "calls s3 = calls s + 2 * calls_made method params"
      using s3 s2 by simp
    from fin Inl i2 s2 s3 cm
    have "(case call_outcome up method params (calls s) (currentNodeIndex s) of
       Inr v \<Rightarrow>
         fst (callSteemAPI up method params s) = Inr v \<and>
         trace (snd (callSteemAPI up method params s))
           = trace s @ call_events method params (currentNodeIndex s)
     | Inl e1 \<Rightarrow>
         (case call_outcome up method params (calls s + calls_made method params) (currentNodeIndex s2) of
            Inr v \<Rightarrow>
              fst (callSteemAPI up method params s) = Inr v \<and>
              trace (snd (callSteemAPI up method params s))
                = trace s @ call_events method params (currentNodeIndex s)
                    @ [Failover, Sleep 1000] @ call_events method params (currentNodeIndex s2)
          | Inl e2 \<Rightarrow>
              fst (callSteemAPI up method params s)
                = call_outcome up method params (calls s + 2 * calls_made method params) (currentNodeIndex s3) \<and>
              trace (snd (callSteemAPI up method params s))
                = trace s @ call_events method params (currentNodeIndex s)
                    @ [Failover, Sleep 1000] @ call_events method params (currentNodeIndex s2)
                    @ [Failover, Sleep 2000] @ call_events method params (currentNodeIndex s3))) \<and>
    calls (snd (callSteemAPI up method params s)) \<le> calls s + 3"
      by (auto simp del: One_nat_def simp: callSteemAPI_def c3)
    then show ?thesis by blast
  qed
qed

lemma failing_call_outcome:
  "call_outcome (failing_upstream e) ''getBlock'' (JArr [JNum 5]) k i = Inl e"
  by (simp add: call_outcome_def route_def failing_upstream_def)

theorem callSteemAPI_three_attempts_witness:
  "currentNodeIndex example_server < length (nodeHealth example_server) \<and>
   fst (callSteemAPI (failing_upstream (Error ''ECONNRESET'')) ''getBlock'' (JArr [JNum 5])
          example_server) = Inl (Error ''ECONNRESET'') \<and>
   (\<exists>i2 i3. trace (snd (callSteemAPI (failing_upstream (Error ''ECONNRESET'')) ''getBlock''
          (JArr [JNum 5]) example_server))
      = [ApiCall 0 ''getBlock'' (JNum 5), Failover, Sleep 1000,
         ApiCall i2 ''getBlock'' (JNum 5), Failover, Sleep 2000,
         ApiCall i3 ''getBlock'' (JNum 5)])"
proof -
  have t: "trace example_server = []" "currentNodeIndex example_server = 0"
    by (simp_all add: example_server_def initial_server_def)
  have ce: "\<And>i. call_events ''getBlock'' (JArr [JNum 5]) i = [ApiCall i ''getBlock'' (JNum 5)]"
    by (simp add: call_events_def route_def)
  show ?thesis
    using callSteemAPI_three_attempts [OF example_valid,
        of "failing_upstream (Error ''ECONNRESET'')" "''getBlock''" "JArr [JNum 5]"]
      example_valid
    by (auto simp: failing_call_outcome t ce)
qed








section \<open>Which steps reach a socket\<close>

lemma internal_step_refl: "internal_step s s"
  by (simp add: internal_step_def)

lemma internal_step_trans: "internal_step a b \<Longrightarrow> internal_step b c \<Longrightarrow> internal_step a c"
  by (auto simp: internal_step_def)

lemma internal_imp_quiet: "internal e \<Longrightarrow> quiet e"
  by (cases e) simp_all

lemma internal_step_quiet: "internal_step s s' \<Longrightarrow> quiet_step s s'"
  by (auto simp: internal_step_def quiet_step_def list_all_iff internal_imp_quiet)

lemma quiet_step_refl: "quiet_step s s"
  by (simp add: quiet_step_def)

lemma quiet_step_trans: "quiet_step a b \<Longrightarrow> quiet_step b c \<Longrightarrow> quiet_step a c"
  by (auto simp: quiet_step_def)

lemma attempt_call_internal: "internal_step s (snd (attempt_call up method params s))"
  by (cases "route method params")
     (simp_all add: attempt_call_def internal_step_def log_event_def Let_def)

lemma switchToHealthyNode_internal:
  "switchToHealthyNode s = Inr s' \<Longrightarrow> internal_step s s'"
  by (auto simp: switchToHealthyNode_def internal_step_def log_event_def Let_def
      split: if_splits list.splits)

lemma sleep_internal: "internal_step s (sleep ms s)"
  by (simp add: sleep_def internal_step_def log_event_def)

lemma internal_step_fields:
  "internal_step s (s\<lparr>nodeHealth := nh\<rparr>)"
  "internal_step s (s\<lparr>errorStats := es\<rparr>)"
  "internal_step s (s\<lparr>cache := c\<rparr>)"
  "internal_step s (s\<lparr>cache := c, errorStats := es\<rparr>)"
  by (simp_all add: internal_step_def)

lemma loop_internal:
  "internal_step s (snd (callSteemAPI_loop up method params maxRetries attempt s))"
proof (induction "maxRetries + 1 - attempt" arbitrary: attempt s)
  case 0
  then have "attempt > maxRetries" by simp
  then show ?case
    by (subst callSteemAPI_loop.simps) (simp add: internal_step_refl)
next
  case (Suc n)
  then have le: "\<not> attempt > maxRetries" by simp
  obtain r s1 where ac: "attempt_call up method params s = (r, s1)"
    by (cases "attempt_call up method params s")
  have i1: "internal_step s s1"
    using attempt_call_internal [of s up "method" params] ac by simp
  show ?case
  proof (cases r)
    case (Inr result)
    have "internal_step s1 (snd (callSteemAPI_loop up method params maxRetries attempt s))"
      using le ac Inr
      by (subst callSteemAPI_loop.simps) (simp add: Let_def internal_step_refl internal_step_fields)
    with i1 show ?thesis by (rule internal_step_trans)
  next
    case (Inl error)
    show ?thesis
    proof (cases "currentNodeIndex s \<ge> length (nodeHealth s1)")
      case True
      have "internal_step s1 (snd (callSteemAPI_loop up method params maxRetries attempt s))"
        using le ac Inl True
        by (subst callSteemAPI_loop.simps) (simp add: Let_def internal_step_refl)
      with i1 show ?thesis by (rule internal_step_trans)
    next
      case False
      define s2 where "s2 = s1\<lparr>nodeHealth := (nodeHealth s1)[currentNodeIndex s :=
                            record_failure (clock s1) (nodeHealth s1 ! currentNodeIndex s)]\<rparr>"
      have i2: "internal_step s s2"
        using i1 internal_step_fields(1) [of s1] unfolding s2_def by (rule internal_step_trans)
      show ?thesis
      proof (cases "attempt < maxRetries")
        case last: False
        have "internal_step s2 (snd (callSteemAPI_loop up method params maxRetries attempt s))"
          using le ac Inl False last
          by (subst callSteemAPI_loop.simps) (simp add: Let_def s2_def internal_step_def)
        with i2 show ?thesis by (rule internal_step_trans)
      next
        case more: True
        show ?thesis
        proof (cases "switchToHealthyNode s2")
          case sw: (Inl e)
          have "internal_step s2 (snd (callSteemAPI_loop up method params maxRetries attempt s))"
            using le ac Inl False more sw
            by (subst callSteemAPI_loop.simps) (simp add: Let_def s2_def internal_step_refl)
          with i2 show ?thesis by (rule internal_step_trans)
        next
          case sw: (Inr s3)
          have eq: "callSteemAPI_loop up method params maxRetries attempt s
                = callSteemAPI_loop up method params maxRetries (attempt + 1)
                    (sleep (1000 * int attempt) s3)"
            using le ac Inl False more sw
            by (subst callSteemAPI_loop.simps) (simp add: Let_def s2_def)
          have m: "n = maxRetries + 1 - (attempt + 1)" using Suc.hyps(2) by simp
          have "internal_step s s3"
            using i2 switchToHealthyNode_internal [OF sw] by (rule internal_step_trans)
          then have "internal_step s (sleep (1000 * int attempt) s3)"
            using sleep_internal by (rule internal_step_trans)
          then show ?thesis
            unfolding eq using Suc.hyps(1) [OF m] by (rule internal_step_trans)
        qed
      qed
    qed
  qed
qed

lemma callSteemAPI_internal: "internal_step s (snd (callSteemAPI up method params s))"
  by (simp add: callSteemAPI_def loop_internal)


lemma getDynamicGlobalProperties_internal:
  "internal_step s (snd (getDynamicGlobalProperties up s))"
proof -
  obtain r s1 where c: "callSteemAPI up ''getDynamicGlobalProperties'' (JArr []) s = (r, s1)"
    by (cases "callSteemAPI up ''getDynamicGlobalProperties'' (JArr []) s")
  have i: "internal_step s s1"
    using callSteemAPI_internal [of s up "''getDynamicGlobalProperties''" "JArr []"] c by simp
  show ?thesis
    using i unfolding getDynamicGlobalProperties_def
    by (auto simp: internal_step_def c count_hit_def count_miss_def Let_def split: sum.splits)
qed

lemma cached_read_internal:
  "internal_step s (snd (cached_read up w cacheKey method args touch s))"
proof -
  obtain m stats cached where g:
    "getCacheItem (clock s) (errorStats s) (the_map w (cache s)) cacheKey (blockTTL (cache s))
       = (m, stats, cached)"
    by (cases "getCacheItem (clock s) (errorStats s) (the_map w (cache s)) cacheKey (blockTTL (cache s))")
  define s0 where "s0 = s\<lparr>cache := put_map w m (cache s), errorStats := stats\<rparr>"
  have i0: "internal_step s s0" by (simp add: s0_def internal_step_def)
  obtain r s1 where c: "callSteemAPI up method args s0 = (r, s1)"
    by (cases "callSteemAPI up method args s0")
  have i1: "internal_step s0 s1"
    using callSteemAPI_internal [of s0 up "method" args] c by simp
  have "internal_step s0 (snd (cached_read up w cacheKey method args touch s))"
    using i1 unfolding cached_read_def
    by (auto simp: g s0_def [symmetric] c internal_step_def Let_def
        split: sum.splits option.splits)
  with i0 show ?thesis by (rule internal_step_trans)
qed

lemma block_reads_internal:
  "internal_step s (snd (getBlockHeader up b s))"
  "internal_step s (snd (getBlock up b s))"
  "internal_step s (snd (getOpsInBlock up b v s))"
  "internal_step s (snd (getTransaction up t s))"
  by (simp_all add: getBlockHeader_def getBlock_def getOpsInBlock_def getTransaction_def
      cached_read_internal callSteemAPI_internal)

lemma update_not_error: "\<not> is_error_frame (subscription_update feed payload now)"
  by (simp add: is_error_frame_def frame_field_def subscription_update_def stringify_def)

lemma response_not_error: "\<not> is_error_frame (response rid result)"
  by (simp add: is_error_frame_def frame_field_def response_def stringify_def)

lemma foldl_send_trace:
  "trace (foldl (\<lambda>st client. ws_send client message st) s xs)
     = trace s @ map (\<lambda>client. Sent client message) xs"
  by (induction xs arbitrary: s) (simp_all add: ws_send_def log_event_def)

lemma foldl_send_fields:
  "clients (foldl (\<lambda>st client. ws_send client message st) s xs) = clients s"
  "subscribers (foldl (\<lambda>st client. ws_send client message st) s xs) = subscribers s"
  "cache (foldl (\<lambda>st client. ws_send client message st) s xs) = cache s"
  "clock (foldl (\<lambda>st client. ws_send client message st) s xs) = clock s"
  by (induction xs arbitrary: s) (simp_all add: ws_send_def log_event_def)

lemma broadcast_quiet:
  "\<not> is_error_frame message \<Longrightarrow>
   quiet_step s (snd (broadcastToSubscribers subs message s))"
  by (simp add: broadcastToSubscribers_def quiet_step_def foldl_send_trace list_all_iff)

lemma quiet_step_fields:
  "quiet_step s (s\<lparr>subscribers := x\<rparr>)"
  "quiet_step s (s\<lparr>errorStats := es\<rparr>)"
  "quiet_step s (s\<lparr>cache := c\<rparr>)"
  "quiet_step s (s\<lparr>lastProcessedBlock := b\<rparr>)"
  "quiet_step s (count_hit s)" "quiet_step s (count_miss s)"
  by (simp_all add: quiet_step_def count_hit_def count_miss_def)

lemma ws_send_quiet: "\<not> is_error_frame f \<Longrightarrow> quiet_step s (ws_send ws f s)"
  by (simp add: quiet_step_def ws_send_def log_event_def)

lemma set_sub_quiet:
  "quiet_step s (snd r) \<Longrightarrow> quiet_step s (set_sub_witnesses r)"
  "quiet_step s (snd r) \<Longrightarrow> quiet_step s (set_sub_blockHeaders r)"
  "quiet_step s (snd r) \<Longrightarrow> quiet_step s (set_sub_blocks r)"
  "quiet_step s (snd r) \<Longrightarrow> quiet_step s (set_sub_operations r)"
  "quiet_step s (snd r) \<Longrightarrow> quiet_step s (set_sub_globalProperties r)"
  by (cases r; simp add: quiet_step_def set_sub_witnesses_def set_sub_blockHeaders_def
        set_sub_blocks_def set_sub_operations_def set_sub_globalProperties_def)+

lemma witnesses_changed_quiet: "quiet_step s (witnesses_changed prev result s)"
  by (simp add: witnesses_changed_def quiet_step_refl set_sub_quiet broadcast_quiet update_not_error)

lemma getActiveWitnesses_quiet: "quiet_step s (snd (getActiveWitnesses up s))"
proof -
  obtain r s1 where c: "callSteemAPI up ''getActiveWitnesses'' (JArr []) s = (r, s1)"
    by (cases "callSteemAPI up ''getActiveWitnesses'' (JArr []) s")
  have i: "quiet_step s s1"
    using callSteemAPI_internal [of s up "''getActiveWitnesses''" "JArr []"] c
    by (simp add: internal_step_quiet)
  show ?thesis
  proof (cases "truthy (activeWitnesses (cache s)) \<and>
            clock s - lastWitnessUpdate (cache s) < witnessTTL (cache s)")
    case True
    then show ?thesis
      by (simp add: getActiveWitnesses_def quiet_step_fields)
  next
    case False
    show ?thesis
    proof (cases r)
      case (Inl error)
      have "quiet_step s1 (snd (getActiveWitnesses up s))"
        using False Inl
        by (auto simp: getActiveWitnesses_def c quiet_step_fields quiet_step_refl)
      with i show ?thesis by (rule quiet_step_trans)
    next
      case (Inr result)
      define s2 where "s2 = count_miss (s1\<lparr>cache := (cache s1)\<lparr>activeWitnesses := result,
                                   lastWitnessUpdate := clock s\<rparr>\<rparr>)"
      define s3 where "s3 = witnesses_changed (activeWitnesses (cache s1)) result s2"
      have "quiet_step s1 s2" by (simp add: s2_def quiet_step_def count_miss_def)
      with i have "quiet_step s s2" by (rule quiet_step_trans)
      then have i3: "quiet_step s s3"
        unfolding s3_def using witnesses_changed_quiet by (rule quiet_step_trans)
      have "snd (getActiveWitnesses up s) = s3 \<or> snd (getActiveWitnesses up s) = count_hit s3"
        using False Inr
        by (auto simp: getActiveWitnesses_def c Let_def s2_def [symmetric] s3_def [symmetric])
      then show ?thesis
        using i3 quiet_step_fields(5) [of s3] quiet_step_trans by metis
    qed
  qed
qed



lemma finish_state: "dispatched_state (finish r) = snd r"
  by (cases r) (simp add: finish_def split: sum.splits)

lemma require_param0_quiet:
  assumes "\<And>p0. quiet_step s (dispatched_state (h p0))"
  shows "quiet_step s (dispatched_state (require_param0 params msg s h))"
  using assms by (simp add: require_param0_def quiet_step_refl split: sum.splits)

lemma set_ops_quiet:
  "\<not> is_error_frame f \<Longrightarrow>
   quiet_step s (ws_send ws f (s\<lparr>subscribers := x\<rparr>))"
  by (simp add: quiet_step_def ws_send_def log_event_def)

lemma subscribe_snapshot_quiet:
  "quiet_step s
     (if c then ws_send ws (subscription_update feed v now)
                 (ws_send ws (response rid r) (s\<lparr>subscribers := x\<rparr>))
      else ws_send ws (response rid r) (s\<lparr>subscribers := x\<rparr>))"
  by (simp add: quiet_step_def ws_send_def log_event_def update_not_error response_not_error)

lemma dispatch_quiet:
  "quiet_step s (dispatched_state (dispatch up ws rid method params s))"
proof (cases "switch_case method")
  case None
  then show ?thesis by (simp add: dispatch_def quiet_step_refl)
next
  case (Some a)
  note q = internal_step_quiet [OF callSteemAPI_internal]
     internal_step_quiet [OF getDynamicGlobalProperties_internal]
     block_reads_internal [THEN internal_step_quiet]
     getActiveWitnesses_quiet quiet_step_refl
  show ?thesis
  proof (cases a)
    case GetOpsInBlock
    have "\<And>p0. quiet_step s (dispatched_state (case js_index params 1 of
                     Inl e \<Rightarrow> Thrown e s
                   | Inr p1 \<Rightarrow> finish (getOpsInBlock up p0 (js_or p1 (JBool False)) s)))"
      by (simp add: finish_state q split: sum.splits)
    then show ?thesis
      using Some GetOpsInBlock by (simp add: dispatch_def require_param0_quiet)
  next
    case SubscribeGlobalProperties
    then show ?thesis
      using Some
      by (simp add: dispatch_def Let_def quiet_step_def ws_send_def log_event_def
            update_not_error response_not_error)
  next
    case SubscribeWitnesses
    then show ?thesis
      using Some
      by (simp add: dispatch_def Let_def quiet_step_def ws_send_def log_event_def
            update_not_error response_not_error)
  qed (use Some in \<open>simp_all add: dispatch_def finish_state q require_param0_quiet
         set_ops_quiet response_not_error split: sum.splits\<close>)
qed


lemma quiet_error_event_ok: "quiet e \<Longrightarrow> error_event_ok ws data e"
  by (cases e) simp_all

lemma error_frame_catch:
  assumes "truthy (get_prop data ''method'')"
  shows "catch_frame_for data
           (error_frame (js_or (get_prop data ''id'') (JStr ''unknown'')) msg
              (js_or (get_prop data ''method'') (JStr ''unknown_method'')))"
proof -
  have a: "js_or (get_prop data ''id'') (JStr ''unknown'') \<noteq> JUndefined"
    by (auto simp: js_or_def)
  have b: "js_or (get_prop data ''method'') (JStr ''unknown_method'') = get_prop data ''method''"
    using assms by (simp add: js_or_def)
  have c: "get_prop data ''method'' \<noteq> JUndefined" using assms by auto
  show ?thesis
    unfolding b using a c
    by (simp add: catch_frame_for_def error_frame_def stringify_def frame_field_def
        is_error_frame_def is_string_field_def)
qed

lemma switchNode_trace: "trace (switchNode s) = trace s"
  by (simp add: switchNode_def)

lemma handleMessage_events:
  assumes "handleMessage up ws data s = Inr s'"
  shows "\<exists>evs. trace s' = trace s @ evs \<and> list_all (error_event_ok ws data) evs"
proof -
  from assms have nn: "\<not> nullish data"
    by (auto simp: handleMessage_def split: if_splits)
  show ?thesis
  proof (cases "truthy (get_prop data ''method'')")
    case False
    with assms nn have "s' = ws_send ws (method_required_frame (get_prop data ''id'')) s"
      by (simp add: handleMessage_def Let_def)
    then show ?thesis
      by (simp add: ws_send_def log_event_def)
  next
    case True
    define d where "d = dispatch up ws (get_prop data ''id'') (get_prop data ''method'') (params_of data) s"
    from dispatch_quiet [of s up ws "get_prop data ''id''" "get_prop data ''method''" "params_of data"]
    obtain evs where evs: "trace (dispatched_state d) = trace s @ evs" "list_all quiet evs"
      unfolding d_def quiet_step_def by blast
    then have ok: "list_all (error_event_ok ws data) evs"
      by (auto simp: list_all_iff quiet_error_event_ok)
    have hm: "handleMessage up ws data s =
        (case d of
                Replied s' \<Rightarrow> Inr s'
              | Result result s' \<Rightarrow> Inr (ws_send ws (response (get_prop data ''id'') result) s')
              | Thrown error s' \<Rightarrow>
                  Inr (ws_send ws (error_frame (js_or (get_prop data ''id'') (JStr ''unknown''))
                         (errorMessage_of error)
                         (js_or (get_prop data ''method'') (JStr ''unknown_method'')))
                       (if str_includes (errorMessage_of error) ''network'' \<or>
                                str_includes (errorMessage_of error) ''timeout''
                             then switchNode s' else s')))"
      using nn True by (simp add: handleMessage_def Let_def d_def split: dispatched.splits)
    show ?thesis
    proof (cases d)
      case (Replied s1)
      with hm assms evs ok show ?thesis by auto
    next
      case (Result v s1)
      with hm assms evs ok show ?thesis
        by (auto simp: ws_send_def log_event_def response_not_error)
    next
      case (Thrown e s1)
      with hm assms evs ok error_frame_catch [OF True] show ?thesis
        by (auto simp: ws_send_def log_event_def switchNode_trace)
    qed
  qed
qed



section \<open>The rate limit\<close>
















section \<open>Argument validation\<close>












section \<open>Error frames\<close>






























section \<open>The poll driver only adds to the trace\<close>

lemma continues_refl: "continues s s"
  by (simp add: continues_def)

lemma continues_trans: "continues a b \<Longrightarrow> continues b c \<Longrightarrow> continues a c"
  by (auto simp: continues_def)

lemma quiet_continues: "quiet_step s s' \<Longrightarrow> continues s s'"
  by (auto simp: quiet_step_def continues_def)

lemma handleMessage_continues: "handleMessage up ws data s = Inr s' \<Longrightarrow> continues s s'"
  using handleMessage_events [of up ws data s s'] by (auto simp: continues_def)

lemma interleave_continues: "continues s (interleave up during s)"
proof (induction during arbitrary: s)
  case Nil
  show ?case by (simp add: continues_refl)
next
  case (Cons fr rest)
  obtain ws data where fr: "fr = (ws, data)" by (cases fr)
  have "continues s (case handleMessage up ws data s of Inl e \<Rightarrow> s | Inr s' \<Rightarrow> s')"
    by (cases "handleMessage up ws data s")
       (simp_all add: continues_refl handleMessage_continues)
  then show ?case
    unfolding fr using Cons.IH by (auto intro: continues_trans)
qed

lemma broadcast_step:
  assumes "quiet_step s (snd r)"
  shows "quiet_step s (case r of (Inl error, s') \<Rightarrow> s'
           | (Inr v, s') \<Rightarrow> set_sub_blockHeaders
               (broadcastToSubscribers (subs s') (subscription_update feed (payload v) (clock s')) s'))"
    and "quiet_step s (case r of (Inl error, s') \<Rightarrow> s'
           | (Inr v, s') \<Rightarrow> set_sub_operations
               (broadcastToSubscribers (subs s') (subscription_update feed (payload v) (clock s')) s'))"
proof -
  obtain x s' where r: "r = (x, s')" by (cases r)
  have b: "quiet_step s' (snd (broadcastToSubscribers (subs s')
              (subscription_update feed (payload v) (clock s')) s'))" for v
    by (rule broadcast_quiet [OF update_not_error])
  have q: "quiet_step s (snd (broadcastToSubscribers (subs s')
              (subscription_update feed (payload v) (clock s')) s'))" for v
    using assms b [of v] unfolding r by (auto intro: quiet_step_trans)
  show "quiet_step s (case r of (Inl error, s') \<Rightarrow> s'
           | (Inr v, s') \<Rightarrow> set_sub_blockHeaders
               (broadcastToSubscribers (subs s') (subscription_update feed (payload v) (clock s')) s'))"
    using assms q unfolding r by (cases x) (simp_all add: set_sub_quiet)
  show "quiet_step s (case r of (Inl error, s') \<Rightarrow> s'
           | (Inr v, s') \<Rightarrow> set_sub_operations
               (broadcastToSubscribers (subs s') (subscription_update feed (payload v) (clock s')) s'))"
    using assms q unfolding r by (cases x) (simp_all add: set_sub_quiet)
qed

lemma blocks_step:
  assumes "quiet_step s (snd r)"
  shows "quiet_step s (case r of (Inl error, s') \<Rightarrow> s'
     | (Inr fullBlock, s') \<Rightarrow>
         let s3 = (if sub_blocks (subscribers s') \<noteq> []
                   then set_sub_blocks
                          (broadcastToSubscribers (sub_blocks (subscribers s'))
                             (subscription_update ''blocks''
                                (json_obj [(''blockNumber'', blockNumber),
                                           (''block'', fullBlock)]) (clock s')) s')
                   else s')
         in if sub_operations (subscribers s3) \<noteq> []
            then (case getOpsInBlock up blockNumber (JBool False) s3 of
                    (Inl error, s4) \<Rightarrow> s4
                  | (Inr ops, s4) \<Rightarrow>
                      set_sub_operations
                        (broadcastToSubscribers (sub_operations (subscribers s4))
                           (subscription_update ''operations''
                              (json_obj [(''blockNumber'', blockNumber),
                                         (''operations'', ops)]) (clock s4)) s4))
            else s3)"
proof -
  obtain x s' where r: "r = (x, s')" by (cases r)
  show ?thesis
  proof (cases x)
    case (Inl e)
    with assms r show ?thesis by simp
  next
    case (Inr fullBlock)
    define s3 where "s3 = (if sub_blocks (subscribers s') \<noteq> []
                   then set_sub_blocks
                          (broadcastToSubscribers (sub_blocks (subscribers s'))
                             (subscription_update ''blocks''
                                (json_obj [(''blockNumber'', blockNumber),
                                           (''block'', fullBlock)]) (clock s')) s')
                   else s')"
    have "quiet_step s' s3"
      by (simp add: s3_def quiet_step_refl set_sub_quiet broadcast_quiet update_not_error)
    with assms have q3: "quiet_step s s3" unfolding r by (auto intro: quiet_step_trans)
    have "quiet_step s3 (snd (getOpsInBlock up blockNumber (JBool False) s3))"
      by (rule internal_step_quiet [OF block_reads_internal(3)])
    with q3 have "quiet_step s (snd (getOpsInBlock up blockNumber (JBool False) s3))"
      by (rule quiet_step_trans)
    from broadcast_step(2) [OF this, of "\<lambda>s. sub_operations (subscribers s)" "''operations''"
        "\<lambda>ops. json_obj [(''blockNumber'', blockNumber), (''operations'', ops)]"] q3
    show ?thesis
      unfolding r Inr by (simp add: Let_def s3_def [symmetric])
  qed
qed

lemma processNewBlock_quiet:
  "quiet_step s (processNewBlockForSubscriptions up blockNumber s)"
proof -
  define s1 where "s1 = (if sub_blockHeaders (subscribers s) \<noteq> []
                  then (case getBlockHeader up blockNumber s of
                          (Inl error, s') \<Rightarrow> s'
                        | (Inr blockHeader, s') \<Rightarrow>
                            set_sub_blockHeaders
                              (broadcastToSubscribers (sub_blockHeaders (subscribers s'))
                                 (subscription_update ''block_headers''
                                    (json_obj [(''blockNumber'', blockNumber),
                                               (''header'', blockHeader)]) (clock s')) s'))
                  else s)"
  have q1: "quiet_step s s1"
    unfolding s1_def
    using broadcast_step(1) [OF internal_step_quiet [OF block_reads_internal(1) [of s up blockNumber]],
        where subs = "\<lambda>s. sub_blockHeaders (subscribers s)" and feed = "''block_headers''"
          and payload = "\<lambda>h. json_obj [(''blockNumber'', blockNumber), (''header'', h)]"]
    by (simp add: quiet_step_refl)
  have "quiet_step s1 (snd (getBlock up blockNumber s1))"
    by (rule internal_step_quiet [OF block_reads_internal(2)])
  with q1 have "quiet_step s (snd (getBlock up blockNumber s1))" by (rule quiet_step_trans)
  note q2 = blocks_step [OF this, of blockNumber up]
  show ?thesis
    unfolding processNewBlockForSubscriptions_def
    using q1 q2
    by (auto simp: Let_def s1_def [symmetric] quiet_step_def)
qed

lemma legacy_not_error: "\<not> is_error_frame (legacy_frame payload now)"
  by (simp add: is_error_frame_def frame_field_def legacy_frame_def stringify_def)

lemma legacy_fold_trace:
  "trace (foldl (\<lambda>st client. if P client then ws_send (sess_id client) f st else st) s cs)
     = trace s @ map (\<lambda>client. Sent (sess_id client) f) (filter P cs)"
  by (induction cs arbitrary: s) (simp_all add: ws_send_def log_event_def)

lemma legacy_broadcast_trace:
  "trace (legacy_broadcast s)
     = trace s @ map (\<lambda>client. Sent (sess_id client)
                        (legacy_frame (globalProperties (cache s)) (clock s)))
                   (filter (\<lambda>client. readyState client = OPEN \<and>
                              sess_id client \<notin> set (sub_globalProperties (subscribers s)))
                      (clients s))"
  unfolding legacy_broadcast_def by (rule legacy_fold_trace)

lemma pollTick_continues: "continues s (pollTick up during s)"
proof -
  obtain r s1 where g: "getDynamicGlobalProperties up s = (r, s1)"
    by (cases "getDynamicGlobalProperties up s")
  have c1: "continues s s1"
    using getDynamicGlobalProperties_internal [of s up] g
    by (simp add: quiet_continues internal_step_quiet)
  show ?thesis
  proof (cases r)
    case (Inl e)
    then have "pollTick up during s = switchNode s1"
      by (simp add: pollTick_def g)
    with c1 show ?thesis by (simp add: continues_def switchNode_trace)
  next
    case (Inr gp)
    define s2 where "s2 = (if sub_globalProperties (subscribers s1) \<noteq> []
                            then set_sub_globalProperties
                                   (broadcastToSubscribers (sub_globalProperties (subscribers s1))
                                      (subscription_update ''global_properties''
                                         (globalProperties (cache s1)) (clock s1)) s1)
                            else s1)"
    define s3 where "s3 = interleave up during s2"
    define s4 where "s4 = processNewBlockForSubscriptions up
                            (head_block_number (globalProperties (cache s1))) s3"
    have "continues s1 s2"
      by (simp add: s2_def continues_refl quiet_continues set_sub_quiet broadcast_quiet
          update_not_error)
    moreover have "continues s2 s3" by (simp add: s3_def interleave_continues)
    moreover have "continues s3 s4" by (simp add: s4_def quiet_continues processNewBlock_quiet)
    moreover have "continues s4 (legacy_broadcast s4)"
      by (simp add: continues_def legacy_broadcast_trace)
    ultimately have "continues s (legacy_broadcast s4)"
      using c1 by (blast intro: continues_trans)
    moreover have "pollTick up during s = legacy_broadcast s4 \<or> pollTick up during s = s1"
      by (simp add: pollTick_def g Inr Let_def s2_def [symmetric] s3_def [symmetric]
          s4_def [symmetric])
    ultimately show ?thesis using c1 by auto
  qed
qed



section \<open>Subscribing to a populated slot\<close>

lemma switch_case_subscribe:
  "switch_case (JStr ''subscribe_global_properties'') = Some SubscribeGlobalProperties"
  "switch_case (JStr ''subscribe_witnesses'') = Some SubscribeWitnesses"
  by (simp_all add: switch_case_def case_labels_def)

lemma handleMessage_subscribe:
  assumes "get_prop data ''method'' = JStr m"
  shows "m = ''subscribe_global_properties'' \<Longrightarrow> truthy (globalProperties (cache s)) \<Longrightarrow>
         handleMessage up ws data s =
           Inr (ws_send ws (subscription_update ''global_properties''
                              (globalProperties (cache s)) (clock s))
                 (ws_send ws (response (get_prop data ''id'') (subscribed ''global_properties''))
                    (s\<lparr>subscribers := (subscribers s)\<lparr>sub_globalProperties :=
                          set_add ws (sub_globalProperties (subscribers s))\<rparr>\<rparr>)))"
    and "m = ''subscribe_witnesses'' \<Longrightarrow> truthy (activeWitnesses (cache s)) \<Longrightarrow>
         handleMessage up ws data s =
           Inr (ws_send ws (subscription_update ''witnesses''
                              (activeWitnesses (cache s)) (clock s))
                 (ws_send ws (response (get_prop data ''id'') (subscribed ''witnesses''))
                    (s\<lparr>subscribers := (subscribers s)\<lparr>sub_witnesses :=
                          set_add ws (sub_witnesses (subscribers s))\<rparr>\<rparr>)))"
proof -
  have nn: "\<not> nullish data" using assms by (auto simp: nullish_def get_prop_def)
  {
    assume m: "m = ''subscribe_global_properties''" and t: "truthy (globalProperties (cache s))"
    have d: "dispatch up ws (get_prop data ''id'') (JStr ''subscribe_global_properties'')
               (params_of data) s
        = Replied (ws_send ws (subscription_update ''global_properties''
                              (globalProperties (cache s)) (clock s))
                 (ws_send ws (response (get_prop data ''id'') (subscribed ''global_properties''))
                    (s\<lparr>subscribers := (subscribers s)\<lparr>sub_globalProperties :=
                          set_add ws (sub_globalProperties (subscribers s))\<rparr>\<rparr>)))"
      using t by (simp add: dispatch_def switch_case_subscribe Let_def ws_send_def log_event_def)
    show "handleMessage up ws data s =
           Inr (ws_send ws (subscription_update ''global_properties''
                              (globalProperties (cache s)) (clock s))
                 (ws_send ws (response (get_prop data ''id'') (subscribed ''global_properties''))
                    (s\<lparr>subscribers := (subscribers s)\<lparr>sub_globalProperties :=
                          set_add ws (sub_globalProperties (subscribers s))\<rparr>\<rparr>)))"
      using nn by (simp add: handleMessage_def assms m d Let_def)
  }
  {
    assume m: "m = ''subscribe_witnesses''" and t: "truthy (activeWitnesses (cache s))"
    have d: "dispatch up ws (get_prop data ''id'') (JStr ''subscribe_witnesses'')
               (params_of data) s
        = Replied (ws_send ws (subscription_update ''witnesses''
                              (activeWitnesses (cache s)) (clock s))
                 (ws_send ws (response (get_prop data ''id'') (subscribed ''witnesses''))
                    (s\<lparr>subscribers := (subscribers s)\<lparr>sub_witnesses :=
                          set_add ws (sub_witnesses (subscribers s))\<rparr>\<rparr>)))"
      using t by (simp add: dispatch_def switch_case_subscribe Let_def ws_send_def log_event_def)
    show "handleMessage up ws data s =
           Inr (ws_send ws (subscription_update ''witnesses''
                              (activeWitnesses (cache s)) (clock s))
                 (ws_send ws (response (get_prop data ''id'') (subscribed ''witnesses''))
                    (s\<lparr>subscribers := (subscribers s)\<lparr>sub_witnesses :=
                          set_add ws (sub_witnesses (subscribers s))\<rparr>\<rparr>)))"
      using nn by (simp add: handleMessage_def assms m d Let_def)
  }
qed

lemma frame_shapes:
  "rid \<noteq> JUndefined \<Longrightarrow> result \<noteq> JUndefined \<Longrightarrow>
   response rid result = [(''id'', Val rid), (''result'', Val result), (''type'', Val (JStr ''response''))]"
  "payload \<noteq> JUndefined \<Longrightarrow>
   subscription_update feed payload now =
     [(''type'', Val (JStr ''subscription_update'')), (''subscription'', Val (JStr feed)),
      (''data'', Val payload), (''timestamp'', IsoTime now)]"
  by (simp_all add: response_def subscription_update_def stringify_def)

text \<open>
  Claim C7. When a client sends \<open>subscribe_global_properties\<close> (or
  \<open>subscribe_witnesses\<close>) and the slot of the feed is populated, the events of the
  handler are exactly two sends to that client: the response with the id of the request and
  the result \<open>{subscribed: true, type: feed}\<close>, then the \<open>subscription_update\<close> with the
  cached value. The client is in the subscriber set afterwards, and whatever a later run
  of the poll driver sends comes after these two frames.
\<close>

theorem subscribe_ack_then_snapshot:
  assumes "get_prop data ''method'' = JStr m"
    and "m = ''subscribe_global_properties'' \<and> feed = ''global_properties'' \<and>
           slot = globalProperties (cache s) \<or>
         m = ''subscribe_witnesses'' \<and> feed = ''witnesses'' \<and> slot = activeWitnesses (cache s)"
    and "truthy slot"
  shows "\<exists>s'. handleMessage up ws data s = Inr s' \<and>
     trace s' = trace s @
       [Sent ws (stringify [(''id'', Val (get_prop data ''id'')),
                            (''result'', Val (JObj [(''subscribed'', JBool True), (''type'', JStr feed)])),
                            (''type'', Val (JStr ''response''))]),
        Sent ws [(''type'', Val (JStr ''subscription_update'')), (''subscription'', Val (JStr feed)),
                 (''data'', Val slot), (''timestamp'', IsoTime (clock s))]] \<and>
     frames_to ws (trace s') = frames_to ws (trace s) @
       [stringify [(''id'', Val (get_prop data ''id'')),
                   (''result'', Val (JObj [(''subscribed'', JBool True), (''type'', JStr feed)])),
                   (''type'', Val (JStr ''response''))],
        [(''type'', Val (JStr ''subscription_update'')), (''subscription'', Val (JStr feed)),
         (''data'', Val slot), (''timestamp'', IsoTime (clock s))]] \<and>
     (m = ''subscribe_global_properties'' \<longrightarrow> ws \<in> set (sub_globalProperties (subscribers s'))) \<and>
     (m = ''subscribe_witnesses'' \<longrightarrow> ws \<in> set (sub_witnesses (subscribers s'))) \<and>
     (\<forall>up' during. continues s' (pollTick up' during s'))"
proof -
  have ft: "frames_to ws (xs @ ys) = frames_to ws xs @ frames_to ws ys" for xs ys
    by (induction xs rule: frames_to.induct) simp_all
  have u: "slot \<noteq> JUndefined" using assms(3) by auto
  from assms(2) show ?thesis
  proof (elim disjE conjE)
    assume m: "m = ''subscribe_global_properties''" and f: "feed = ''global_properties''"
      and sl: "slot = globalProperties (cache s)"
    from u sl have u': "globalProperties (cache s) \<noteq> JUndefined" by simp
    from handleMessage_subscribe(1) [OF assms(1) m, of s up ws] assms(3) sl
    show ?thesis
      by (simp add: ws_send_def log_event_def frame_shapes(2) [OF u'] response_def subscribed_def
          f m sl ft set_add_def pollTick_continues)
  next
    assume m: "m = ''subscribe_witnesses''" and f: "feed = ''witnesses''"
      and sl: "slot = activeWitnesses (cache s)"
    from u sl have u': "activeWitnesses (cache s) \<noteq> JUndefined" by simp
    from handleMessage_subscribe(2) [OF assms(1) m, of s up ws] assms(3) sl
    show ?thesis
      by (simp add: ws_send_def log_event_def frame_shapes(2) [OF u'] response_def subscribed_def
          f m sl ft set_add_def pollTick_continues)
  qed
qed

theorem subscribe_ack_then_snapshot_witness:
  "truthy (globalProperties (cache example_server)) \<and>
   (\<exists>s'. handleMessage (failing_upstream (Error ''down'')) 1
           (JObj [(''id'', JNum 3), (''method'', JStr ''subscribe_global_properties'')])
           example_server = Inr s' \<and>
     frames_to 1 (trace s') =
       [[(''id'', Val (JNum 3)),
         (''result'', Val (JObj [(''subscribed'', JBool True), (''type'', JStr ''global_properties'')])),
         (''type'', Val (JStr ''response''))],
        [(''type'', Val (JStr ''subscription_update'')),
         (''subscription'', Val (JStr ''global_properties'')),
         (''data'', Val (JObj [(''head_block_number'', JNum 100)])),
         (''timestamp'', IsoTime 500000)]])"
proof -
  have p: "get_prop (JObj [(''id'', JNum 3), (''method'', JStr ''subscribe_global_properties'')]) ''method''
             = JStr ''subscribe_global_properties''"
     "get_prop (JObj [(''id'', JNum 3), (''method'', JStr ''subscribe_global_properties'')]) ''id''
             = JNum 3"
    by (simp_all add: get_prop_def obj_get_def)
  have e: "globalProperties (cache example_server) = JObj [(''head_block_number'', JNum 100)]"
    "trace example_server = []" "clock example_server = 500000"
    by (simp_all add: example_server_def initial_server_def)
  have t: "truthy (globalProperties (cache example_server))" by (simp add: e)
  show ?thesis
    using subscribe_ack_then_snapshot [OF p(1), of "''global_properties''"
        "globalProperties (cache example_server)" example_server
        "failing_upstream (Error ''down'')" 1] t
    by (auto simp: e p stringify_def)
qed




section \<open>Stale slots and failover\<close>

text \<open>
  Claim C6 at a concrete input. The head state and the witness list are cached and older
  than their TTL, all endpoints are healthy, and every upstream call fails. The first
  failed attempt makes \<open>switchToHealthyNode\<close> switch to another endpoint and clear the
  cache, so when the third attempt has failed the \<open>catch\<close> block of the handler finds
  the slot empty and the error is raised, although a prior value was cached when the
  refresh began.
\<close>

theorem stale_slot_lost_in_failover:
  "truthy (globalProperties (cache example_server)) \<and>
   fst (getDynamicGlobalProperties (failing_upstream (Error ''ECONNRESET'')) example_server)
     = Inl (Error ''ECONNRESET'') \<and>
   truthy (activeWitnesses (cache example_server)) \<and>
   fst (getActiveWitnesses (failing_upstream (Error ''ECONNRESET'')) example_server)
     = Inl (Error ''ECONNRESET'')"
  by code_simp

text \<open>
  Where the failover finds no endpoint to switch to, the cache is not cleared and the
  stale values are returned.
\<close>

lemma stale_slot_served_without_failover:
  "fst (getDynamicGlobalProperties (failing_upstream (Error ''ECONNRESET'')) degraded_server)
     = Inr (JObj [(''head_block_number'', JNum 100)]) \<and>
   fst (getActiveWitnesses (failing_upstream (Error ''ECONNRESET'')) degraded_server)
     = Inr (JArr [JStr ''alice'', JStr ''bob''])"
  by code_simp

section \<open>The two broadcasts of a head change\<close>

text \<open>
  Claim C8 at a concrete input. Client 1 is a head-state subscriber and client 2 a block
  subscriber when the driver sees block 101. Client 1 gets the subscription update; while
  the driver waits for the block that client 2 is to get, the unsubscribe frame of client
  1 is handled; the legacy broadcast then finds client 1 outside the subscriber set and
  sends it the legacy frame for the same change as well.
\<close>

theorem unsubscribe_during_poll_gets_both:
  "frames_to 1 (trace (pollTick head_upstream
       [(1, JObj [(''id'', JNum 9), (''method'', JStr ''unsubscribe_global_properties'')])]
       poll_server))
   = [[(''type'', Val (JStr ''subscription_update'')),
       (''subscription'', Val (JStr ''global_properties'')),
       (''data'', Val (JObj [(''head_block_number'', JNum 101)])),
       (''timestamp'', IsoTime 500020)],
      [(''id'', Val (JNum 9)),
       (''result'', Val (JObj [(''unsubscribed'', JBool True), (''type'', JStr ''global_properties'')])),
       (''type'', Val (JStr ''response''))],
      [(''type'', Val (JStr ''broadcast'')),
       (''method'', Val (JStr ''dynamic_global_properties_update'')),
       (''data'', Val (JObj [(''head_block_number'', JNum 101)])),
       (''timestamp'', IsoTime 500040)]]"
  by code_simp

text \<open>With no frame handled during the wait, client 1 gets the subscription update only.\<close>

lemma poll_without_interleaving:
  "frames_to 1 (trace (pollTick head_upstream [] poll_server))
   = [[(''type'', Val (JStr ''subscription_update'')),
       (''subscription'', Val (JStr ''global_properties'')),
       (''data'', Val (JObj [(''head_block_number'', JNum 101)])),
       (''timestamp'', IsoTime 500020)]] \<and>
   frames_to 2 (trace (pollTick head_upstream [] poll_server))
   = [[(''type'', Val (JStr ''subscription_update'')),
       (''subscription'', Val (JStr ''blocks'')),
       (''data'', Val (JObj [(''blockNumber'', JNum 101),
                             (''block'', JObj [(''transactions'', JArr [])])])),
       (''timestamp'', IsoTime 500040)],
      [(''type'', Val (JStr ''broadcast'')),
       (''method'', Val (JStr ''dynamic_global_properties_update'')),
       (''data'', Val (JObj [(''head_block_number'', JNum 101)])),
       (''timestamp'', IsoTime 500040)]]"
  by code_simp


section \<open>The rate limit across limiter, queue and dispatcher\<close>















end
